theory Spec2Isabelle
  imports Main "HOL-Library.AList"
begin

section \<open>Task Scheduler utilities (\<^verbatim>\<open>windows_system_utilities/schedule_task.py\<close>)\<close>

text \<open>
  The module drives the Windows Task Scheduler through its automation interface
  (\<^verbatim>\<open>Schedule.Service\<close>). The Python functions are embedded as state-passing
  functions over a record \<open>service\<close> that stands for the scheduler: every method the
  module invokes on a scheduler object is a function on that record which appends the
  invocation to a journal (\<open>calls\<close>) and returns either a value or the exception the
  method raised. Exceptions are values of type \<open>error\<close>; a function that raises returns
  \<open>Inl\<close>.
\<close>

subsection \<open>Strings\<close>

definition bs :: char where
  "bs = CHR 0x5C"

text \<open>\<^verbatim>\<open>str.split(sep)\<close> for a one-character separator: never the empty list.\<close>

fun str_split :: "char \<Rightarrow> string \<Rightarrow> string list" where
  "str_split c [] = [[]]"
| "str_split c (x # xs) =
     (if x = c then [] # str_split c xs
      else (case str_split c xs of
              [] \<Rightarrow> [[x]]
            | w # ws \<Rightarrow> (x # w) # ws))"

text \<open>\<^verbatim>\<open>str.strip(chars)\<close> for a one-character set.\<close>

definition str_strip :: "char \<Rightarrow> string \<Rightarrow> string" where
  "str_strip c s = rev (dropWhile (\<lambda>x. x = c) (rev (dropWhile (\<lambda>x. x = c) s)))"

text \<open>Python's \<^verbatim>\<open>x or d\<close> on an optional string: \<^verbatim>\<open>None\<close> and \<^verbatim>\<open>""\<close> are both falsy.\<close>

definition str_or :: "string option \<Rightarrow> string \<Rightarrow> string" where
  "str_or x d = (case x of None \<Rightarrow> d | Some v \<Rightarrow> if v = [] then d else v)"

subsection \<open>Constants of the module\<close>

definition TASK_CREATE_OR_UPDATE :: int where "TASK_CREATE_OR_UPDATE = 6"
definition TASK_LOGON_INTERACTIVE_TOKEN :: int where "TASK_LOGON_INTERACTIVE_TOKEN = 3"
definition TASK_LOGON_PASSWORD :: int where "TASK_LOGON_PASSWORD = 1"
definition TASK_LOGON_SERVICE_ACCOUNT :: int where "TASK_LOGON_SERVICE_ACCOUNT = 5"
definition TASK_TRIGGER_TIME :: int where "TASK_TRIGGER_TIME = 1"
definition TASK_TRIGGER_DAILY :: int where "TASK_TRIGGER_DAILY = 2"
definition TASK_TRIGGER_LOGON :: int where "TASK_TRIGGER_LOGON = 9"
definition TASK_ACTION_EXEC :: int where "TASK_ACTION_EXEC = 0"

subsection \<open>Values of the standard library\<close>

text \<open>
  A \<^verbatim>\<open>datetime\<close> (naive, as \<^verbatim>\<open>datetime.now()\<close> returns it) is the number of
  microseconds since 0001-01-01T00:00:00; the type ends at 9999-12-31T23:59:59.999999,
  and an addition that leaves the range raises \<^verbatim>\<open>OverflowError\<close>.
  A \<^verbatim>\<open>Path\<close> is kept as the text it was built from.
\<close>

type_synonym datetime = int
type_synonym Path = string

definition datetime_max :: datetime where
  "datetime_max = 315537897599999999"

definition timedelta_minutes :: "int \<Rightarrow> int" where
  "timedelta_minutes m = m * 60000000"

text \<open>
  The functions of the standard library that the module calls and does not define are a
  parameter of the model: \<^verbatim>\<open>datetime.strptime\<close> (\<open>Inl\<close> with the message when it
  raises \<^verbatim>\<open>ValueError\<close>), \<^verbatim>\<open>datetime.strftime\<close>, \<^verbatim>\<open>str(path)\<close> and \<^verbatim>\<open>path.name\<close>.
\<close>

record pylib =
  strptime :: "string \<Rightarrow> string \<Rightarrow> string + datetime"
  strftime :: "datetime \<Rightarrow> string \<Rightarrow> string"
  path_str :: "Path \<Rightarrow> string"
  path_name :: "Path \<Rightarrow> string"

subsection \<open>Exceptions\<close>

datatype com_code =
    E_ACCESS
  | ERROR_PATH_NOT_FOUND
  | ERROR_FILE_NOT_FOUND
  | ERROR_ALREADY_EXISTS
  | ERROR_INVALID_NAME

datatype error =
    ValueError string
  | OverflowError
  | KeyError string
  | com_error com_code
  | SystemExit int

subsection \<open>Data\<close>

record TaskParams =
  name :: string
  exe :: Path
  arguments :: string
  start_when_available :: bool
  run_with_highest :: bool
  wake_to_run :: bool
  working_dir :: "Path option"
  folder :: string
  logon_type :: int
  username :: "string option"
  password :: "string option"

text \<open>The field defaults of the dataclass; \<open>name\<close> and \<open>exe\<close> have none.\<close>

definition default_folder :: string where
  "default_folder =
     ''D:'' @ [bs] @ ''LifeLongLearning'' @ [bs] @ ''windows-automation-python''"

definition TaskParams_init :: "string \<Rightarrow> Path \<Rightarrow> TaskParams" where
  "TaskParams_init n e =
     \<lparr>name = n, exe = e, arguments = [], start_when_available = True,
      run_with_highest = True, wake_to_run = False, working_dir = None,
      folder = default_folder, logon_type = TASK_LOGON_INTERACTIVE_TOKEN,
      username = None, password = None\<rparr>"

text \<open>
  The task definition object and its parts, with the fields the module writes.
\<close>

record RegistrationInfo =
  Description :: string
  Author :: string

record Settings =
  Enabled :: bool
  StartWhenAvailable :: bool
  Hidden :: bool
  RunOnlyIfIdle :: bool
  WakeToRun :: bool
  MultipleInstances :: int

record Principal =
  RunLevel :: int

record Action =
  ActionType :: int
  Path :: string
  Arguments :: string
  WorkingDirectory :: "string option"

record Trigger =
  TriggerType :: int
  DaysInterval :: "int option"
  StartBoundary :: "string option"

record TaskDefinition =
  RegistrationInfo :: RegistrationInfo
  Settings :: Settings
  Principal :: Principal
  Actions :: "Action list"
  Triggers :: "Trigger list"

subsection \<open>The scheduler\<close>

text \<open>
  A folder handle is the folder's full path, as the list of its segments below the root
  (the root is \<open>[]\<close>). The scheduler holds the set of folders, the registered tasks keyed
  by folder and name, and the journal of every method invoked on it.

  The scheduler is not code of the repository. In its model, looking up a folder or task
  that is absent raises \<^verbatim>\<open>com_error\<close>; creating a folder that exists raises;
  registration with both the create and the update flag stores the definition under the
  name, replacing an earlier one. Task names are opaque keys.

  How a folder handle reads a name that starts with a separator is not settled by the
  repository, and \<^verbatim>\<open>_get_folder\<close> passes such names. There are two readings: the
  name is resolved below the handle, leading separators ignored; or the name is resolved
  from the root, which is how the comment in \<^verbatim>\<open>_get_folder\<close> puts it (``check if
  exists as absolute under root''). The folder methods take the reading as a parameter,
  \<open>rooted\<close>, and \<^verbatim>\<open>_get_folder\<close> is embedded for both. A name without a leading
  separator is resolved below the handle in either reading.
\<close>

record Registered =
  Definition :: TaskDefinition
  UserId :: string
  Password :: string
  LogonType :: int
  State :: int
  NextRunTime :: "string option"

record RegisteredTask =
  rt_Name :: string
  rt_State :: int
  rt_NextRunTime :: "string option"
  rt_Path :: string

datatype call =
    Dispatch string
  | Connect
  | ServiceGetFolder string
  | GetFolder "string list" string
  | CreateFolder "string list" string
  | NewTask int
  | RegisterTaskDefinition "string list" string TaskDefinition int string string int
  | GetTask "string list" string
  | Run "string list" string string
  | DeleteTask "string list" string int
  | GetTasks "string list" int

record service =
  reachable :: bool
  folders :: "string list set"
  tasks :: "((string list \<times> string) \<times> Registered) list"
  calls :: "call list"

type_synonym 'a result = "(error + 'a) \<times> service"

definition journal :: "call \<Rightarrow> service \<Rightarrow> service" where
  "journal c s = s\<lparr>calls := calls s @ [c]\<rparr>"

text \<open>
  How the scheduler reads a path argument: the root is a single separator; otherwise
  leading separators are dropped and the rest is split at separators, and an empty
  rest, a trailing separator or an empty segment is an invalid name.
\<close>

definition arg_path :: "string \<Rightarrow> string list option" where
  "arg_path p =
     (if p = [bs] then Some []
      else let r = dropWhile (\<lambda>x. x = bs) p in
        if r = [] \<or> last r = bs \<or> [] \<in> set (str_split bs r) then None
        else Some (str_split bs r))"

definition lookup_folder :: "string list \<Rightarrow> string \<Rightarrow> service \<Rightarrow> string list result" where
  "lookup_folder h p s =
     (case arg_path p of
        None \<Rightarrow> (Inl (com_error ERROR_INVALID_NAME), s)
      | Some segs \<Rightarrow>
          if h @ segs \<in> folders s then (Inr (h @ segs), s)
          else (Inl (com_error ERROR_PATH_NOT_FOUND), s))"

text \<open>
  The folders of the segments \<open>ps\<close> below \<open>parent\<close>, outermost first: for \<open>[A, B]\<close>
  below the root, \<open>[[A], [A, B]]\<close>. Creating a folder creates the folder of every
  segment of the name given.
\<close>

fun segment_folders :: "string list \<Rightarrow> string list \<Rightarrow> string list list" where
  "segment_folders parent [] = []"
| "segment_folders parent (p # ps) = (parent @ [p]) # segment_folders (parent @ [p]) ps"

definition service_Connect :: "service \<Rightarrow> unit result" where
  "service_Connect s =
     (let s1 = journal Connect s in
      if reachable s then (Inr (), s1) else (Inl (com_error E_ACCESS), s1))"

definition service_GetFolder :: "string \<Rightarrow> service \<Rightarrow> string list result" where
  "service_GetFolder p s = lookup_folder [] p (journal (ServiceGetFolder p) s)"

definition lookup_base :: "bool \<Rightarrow> string list \<Rightarrow> string \<Rightarrow> string list" where
  "lookup_base rooted h p = (if rooted \<and> p \<noteq> [] \<and> hd p = bs then [] else h)"

definition folder_GetFolder_as ::
  "bool \<Rightarrow> string list \<Rightarrow> string \<Rightarrow> service \<Rightarrow> string list result" where
  "folder_GetFolder_as rooted h p s =
     lookup_folder (lookup_base rooted h p) p (journal (GetFolder h p) s)"


text \<open>
  The operations of the module other than \<^verbatim>\<open>_get_folder\<close> are embedded over the
  scheduler that resolves below the handle: \<open>folder_GetFolder\<close> and
  \<open>folder_CreateFolder\<close> are the two methods in that reading.
\<close>

definition folder_GetFolder :: "string list \<Rightarrow> string \<Rightarrow> service \<Rightarrow> string list result" where
  "folder_GetFolder h p s = folder_GetFolder_as False h p s"

definition folder_CreateFolder :: "string list \<Rightarrow> string \<Rightarrow> service \<Rightarrow> string list result" where
  "folder_CreateFolder h p s =
     (let s1 = journal (CreateFolder h p) s in
      case arg_path p of
        None \<Rightarrow> (Inl (com_error ERROR_INVALID_NAME), s1)
      | Some segs \<Rightarrow>
          if h @ segs \<in> folders s1 then (Inl (com_error ERROR_ALREADY_EXISTS), s1)
          else (Inr (h @ segs), s1\<lparr>folders := folders s1 \<union> set (segment_folders h segs)\<rparr>))"

subsection \<open>\<^verbatim>\<open>_connect\<close> and \<^verbatim>\<open>_get_folder\<close>\<close>

text \<open>\<^verbatim>\<open>Dispatch("Schedule.Service")\<close> followed by \<^verbatim>\<open>svc.Connect()\<close>.\<close>

definition connect :: "service \<Rightarrow> unit result" where
  "connect s = service_Connect (journal (Dispatch ''Schedule.Service'') s)"

text \<open>
  The loop of \<^verbatim>\<open>_get_folder\<close>: for each part, look it up below \<open>parent\<close> and, when
  that raises, create it there; an exception of the creation leaves the function.
\<close>

fun walk :: "string list \<Rightarrow> string list \<Rightarrow> service \<Rightarrow> string list result" where
  "walk parent [] s = (Inr parent, s)"
| "walk parent (part # rest) s =
     (case folder_GetFolder parent (bs # part) s of
        (Inr f, s1) \<Rightarrow> walk f rest s1
      | (Inl e, s1) \<Rightarrow>
          (case folder_CreateFolder parent part s1 of
             (Inr f, s2) \<Rightarrow> walk f rest s2
           | (Inl e', s2) \<Rightarrow> (Inl e', s2)))"

definition parts :: "string \<Rightarrow> string list" where
  "parts folder_path = filter (\<lambda>p. p \<noteq> []) (str_split bs (str_strip bs folder_path))"

definition get_folder :: "string \<Rightarrow> service \<Rightarrow> string list result" where
  "get_folder folder_path s =
     (case service_GetFolder folder_path s of
        (Inr f, s1) \<Rightarrow> (Inr f, s1)
      | (Inl e, s1) \<Rightarrow>
          (case service_GetFolder [bs] s1 of
             (Inl e', s2) \<Rightarrow> (Inl e', s2)
           | (Inr parent, s2) \<Rightarrow> walk parent (parts folder_path) s2))"



subsection \<open>The other methods of the scheduler\<close>

text \<open>\<^verbatim>\<open>svc.NewTask(0)\<close>: a fresh definition object, nothing set.\<close>

definition blank_definition :: TaskDefinition where
  "blank_definition =
     \<lparr>RegistrationInfo = \<lparr>Description = [], Author = []\<rparr>,
      Settings = \<lparr>Enabled = True, StartWhenAvailable = False, Hidden = False,
                  RunOnlyIfIdle = False, WakeToRun = False, MultipleInstances = 0\<rparr>,
      Principal = \<lparr>RunLevel = 0\<rparr>,
      Actions = [], Triggers = []\<rparr>"

definition service_NewTask :: "int \<Rightarrow> service \<Rightarrow> TaskDefinition result" where
  "service_NewTask flags s = (Inr blank_definition, journal (NewTask flags) s)"

text \<open>
  What the scheduler stores for a submitted definition. The state and the next run time
  belong to the scheduler's engine; here a stored task is ready (3) when enabled and
  disabled (1) otherwise, and its next run is the start boundary of its first trigger.
\<close>

definition stored :: "TaskDefinition \<Rightarrow> string \<Rightarrow> string \<Rightarrow> int \<Rightarrow> Registered" where
  "stored td user pwd logon =
     \<lparr>Definition = td, UserId = user, Password = pwd, LogonType = logon,
      State = (if Enabled (Settings td) then 3 else 1),
      NextRunTime = (case Triggers td of [] \<Rightarrow> None | t # _ \<Rightarrow> StartBoundary t)\<rparr>"

text \<open>
  \<^verbatim>\<open>folder.RegisterTaskDefinition(name, td, flags, user, pwd, logon)\<close>: flag 2 allows
  creating, flag 4 allows updating, 6 both.
\<close>

definition folder_RegisterTaskDefinition ::
  "string list \<Rightarrow> string \<Rightarrow> TaskDefinition \<Rightarrow> int \<Rightarrow> string \<Rightarrow> string \<Rightarrow> int \<Rightarrow> service
     \<Rightarrow> unit result" where
  "folder_RegisterTaskDefinition h nm td flags user pwd logon s =
     (let s1 = journal (RegisterTaskDefinition h nm td flags user pwd logon) s in
      case map_of (tasks s1) (h, nm) of
        Some old \<Rightarrow>
          if flags = 4 \<or> flags = 6
          then (Inr (), s1\<lparr>tasks := AList.update (h, nm) (stored td user pwd logon) (tasks s1)\<rparr>)
          else (Inl (com_error ERROR_ALREADY_EXISTS), s1)
      | None \<Rightarrow>
          if flags = 2 \<or> flags = 6
          then (Inr (), s1\<lparr>tasks := AList.update (h, nm) (stored td user pwd logon) (tasks s1)\<rparr>)
          else (Inl (com_error ERROR_FILE_NOT_FOUND), s1))"

definition folder_GetTask :: "string list \<Rightarrow> string \<Rightarrow> service \<Rightarrow> (string list \<times> string) result" where
  "folder_GetTask h nm s =
     (let s1 = journal (GetTask h nm) s in
      case map_of (tasks s1) (h, nm) of
        None \<Rightarrow> (Inl (com_error ERROR_FILE_NOT_FOUND), s1)
      | Some r \<Rightarrow> (Inr (h, nm), s1))"

definition task_Run :: "string list \<times> string \<Rightarrow> string \<Rightarrow> service \<Rightarrow> unit result" where
  "task_Run t params s =
     (let s1 = journal (Run (fst t) (snd t) params) s in
      case map_of (tasks s1) t of
        None \<Rightarrow> (Inl (com_error ERROR_FILE_NOT_FOUND), s1)
      | Some r \<Rightarrow> (Inr (), s1))"

definition folder_DeleteTask :: "string list \<Rightarrow> string \<Rightarrow> int \<Rightarrow> service \<Rightarrow> unit result" where
  "folder_DeleteTask h nm flags s =
     (let s1 = journal (DeleteTask h nm flags) s in
      case map_of (tasks s1) (h, nm) of
        None \<Rightarrow> (Inl (com_error ERROR_FILE_NOT_FOUND), s1)
      | Some r \<Rightarrow> (Inr (), s1\<lparr>tasks := AList.delete (h, nm) (tasks s1)\<rparr>))"

definition task_path :: "string list \<Rightarrow> string \<Rightarrow> string" where
  "task_path h nm = concat (map (\<lambda>seg. bs # seg) (h @ [nm]))"

definition as_registered_task :: "(string list \<times> string) \<times> Registered \<Rightarrow> RegisteredTask" where
  "as_registered_task e =
     \<lparr>rt_Name = snd (fst e), rt_State = State (snd e),
      rt_NextRunTime = NextRunTime (snd e), rt_Path = task_path (fst (fst e)) (snd (fst e))\<rparr>"

text \<open>\<^verbatim>\<open>folder.GetTasks(flags)\<close>: the tasks of the folder; flag 1 includes hidden ones.\<close>

definition folder_GetTasks :: "string list \<Rightarrow> int \<Rightarrow> service \<Rightarrow> RegisteredTask list result" where
  "folder_GetTasks h flags s =
     (let s1 = journal (GetTasks h flags) s in
      (Inr (map as_registered_task
              (filter (\<lambda>e. fst (fst e) = h
                            \<and> (flags = 1 \<or> \<not> Hidden (Settings (Definition (snd e)))))
                 (tasks s1))),
       s1))"

subsection \<open>Building the definition\<close>

text \<open>
  A \<^verbatim>\<open>Path\<close> is always truthy, so the working directory is set whenever
  \<open>working_dir\<close> is not \<^verbatim>\<open>None\<close>. The definition object lives in the calling
  process: writing its fields and creating its action and triggers are not journalled.
\<close>

text \<open>
  The body of \<^verbatim>\<open>_base_task_def\<close> after \<^verbatim>\<open>td = svc.NewTask(0)\<close>, in the order of
  its assignments.
\<close>

definition fill_task_def :: "pylib \<Rightarrow> TaskParams \<Rightarrow> TaskDefinition \<Rightarrow> TaskDefinition" where
  "fill_task_def lib params td =
     (let td1 = td\<lparr>RegistrationInfo :=
                     (RegistrationInfo td)
                       \<lparr>Description := ''Created by Python for '' @ path_name lib (exe params),
                        Author := str_or (username params) ''CurrentUser''\<rparr>\<rparr>;
          td2 = td1\<lparr>Settings :=
                     (Settings td1)\<lparr>Enabled := True,
                                     StartWhenAvailable := start_when_available params,
                                     Hidden := False,
                                     RunOnlyIfIdle := False,
                                     WakeToRun := wake_to_run params,
                                     MultipleInstances := 0\<rparr>\<rparr>;
          td3 = td2\<lparr>Principal :=
                     (Principal td2)\<lparr>RunLevel := (if run_with_highest params then 1 else 0)\<rparr>\<rparr>;
          act = \<lparr>ActionType = TASK_ACTION_EXEC,
                 Path = path_str lib (exe params),
                 Arguments = str_or (Some (arguments params)) [],
                 WorkingDirectory =
                   (case working_dir params of
                      None \<Rightarrow> None
                    | Some d \<Rightarrow> Some (path_str lib d))\<rparr>
      in td3\<lparr>Actions := Actions td3 @ [act]\<rparr>)"

definition base_task_def :: "pylib \<Rightarrow> TaskParams \<Rightarrow> service \<Rightarrow> TaskDefinition result" where
  "base_task_def lib params s =
     (case service_NewTask 0 s of
        (Inl e, s1) \<Rightarrow> (Inl e, s1)
      | (Inr td, s1) \<Rightarrow> (Inr (fill_task_def lib params td), s1))"

definition boundary_format :: string where
  "boundary_format = ''%Y-%m-%dT%H:%M:%S''"

definition add_daily_trigger :: "pylib \<Rightarrow> TaskDefinition \<Rightarrow> datetime \<Rightarrow> TaskDefinition" where
  "add_daily_trigger lib td start_time =
     td\<lparr>Triggers := Triggers td @
          [\<lparr>TriggerType = TASK_TRIGGER_DAILY, DaysInterval = Some 1,
            StartBoundary = Some (strftime lib start_time boundary_format)\<rparr>]\<rparr>"

definition add_once_trigger :: "pylib \<Rightarrow> TaskDefinition \<Rightarrow> datetime \<Rightarrow> TaskDefinition" where
  "add_once_trigger lib td run_at =
     td\<lparr>Triggers := Triggers td @
          [\<lparr>TriggerType = TASK_TRIGGER_TIME, DaysInterval = None,
            StartBoundary = Some (strftime lib run_at boundary_format)\<rparr>]\<rparr>"

definition add_logon_trigger :: "TaskDefinition \<Rightarrow> TaskDefinition" where
  "add_logon_trigger td =
     td\<lparr>Triggers := Triggers td @
          [\<lparr>TriggerType = TASK_TRIGGER_LOGON, DaysInterval = None, StartBoundary = None\<rparr>]\<rparr>"

subsection \<open>The operations\<close>

definition datetime_add :: "datetime \<Rightarrow> int \<Rightarrow> error + datetime" where
  "datetime_add t d =
     (if t + d < 0 \<or> datetime_max < t + d then Inl OverflowError else Inr (t + d))"

text \<open>
  \<^verbatim>\<open>when or (datetime.now() + timedelta(minutes=2))\<close>: a \<^verbatim>\<open>datetime\<close> is always
  truthy, and the clock is read only when \<open>when\<close> is \<^verbatim>\<open>None\<close>.
\<close>

definition when_or_default :: "datetime option \<Rightarrow> datetime \<Rightarrow> error + datetime" where
  "when_or_default when now =
     (case when of Some t \<Rightarrow> Inr t | None \<Rightarrow> datetime_add now (timedelta_minutes 2))"

definition attach_trigger ::
  "pylib \<Rightarrow> TaskDefinition \<Rightarrow> string \<Rightarrow> datetime option \<Rightarrow> datetime \<Rightarrow> error + TaskDefinition" where
  "attach_trigger lib td trigger when now =
     (if trigger = ''daily'' then
        (case when_or_default when now of
           Inl e \<Rightarrow> Inl e | Inr t \<Rightarrow> Inr (add_daily_trigger lib td t))
      else if trigger = ''once'' then
        (case when_or_default when now of
           Inl e \<Rightarrow> Inl e | Inr t \<Rightarrow> Inr (add_once_trigger lib td t))
      else if trigger = ''logon'' then Inr (add_logon_trigger td)
      else Inl (ValueError ''trigger must be one of: daily | once | logon''))"

text \<open>
  \<open>now\<close> is what \<^verbatim>\<open>datetime.now()\<close> returns during the call. The lines written with
  \<^verbatim>\<open>logging.info\<close> after a successful operation are left out.
\<close>

definition register_task ::
  "pylib \<Rightarrow> TaskParams \<Rightarrow> string \<Rightarrow> datetime option \<Rightarrow> datetime \<Rightarrow> service \<Rightarrow> unit result" where
  "register_task lib params trigger when now s =
     (case connect s of
        (Inl e, s1) \<Rightarrow> (Inl e, s1)
      | (Inr svc, s1) \<Rightarrow>
     (case get_folder (folder params) s1 of
        (Inl e, s2) \<Rightarrow> (Inl e, s2)
      | (Inr f, s2) \<Rightarrow>
     (case base_task_def lib params s2 of
        (Inl e, s3) \<Rightarrow> (Inl e, s3)
      | (Inr td, s3) \<Rightarrow>
     (case attach_trigger lib td trigger when now of
        Inl e \<Rightarrow> (Inl e, s3)
      | Inr td' \<Rightarrow>
          folder_RegisterTaskDefinition f (name params) td' TASK_CREATE_OR_UPDATE
            (str_or (username params) []) (str_or (password params) [])
            (logon_type params) s3))))"

definition run_task :: "string \<Rightarrow> string \<Rightarrow> service \<Rightarrow> unit result" where
  "run_task nm fld s =
     (case connect s of
        (Inl e, s1) \<Rightarrow> (Inl e, s1)
      | (Inr svc, s1) \<Rightarrow>
     (case get_folder fld s1 of
        (Inl e, s2) \<Rightarrow> (Inl e, s2)
      | (Inr f, s2) \<Rightarrow>
     (case folder_GetTask f nm s2 of
        (Inl e, s3) \<Rightarrow> (Inl e, s3)
      | (Inr task, s3) \<Rightarrow> task_Run task [] s3)))"

definition delete_task :: "string \<Rightarrow> string \<Rightarrow> service \<Rightarrow> unit result" where
  "delete_task nm fld s =
     (case connect s of
        (Inl e, s1) \<Rightarrow> (Inl e, s1)
      | (Inr svc, s1) \<Rightarrow>
     (case get_folder fld s1 of
        (Inl e, s2) \<Rightarrow> (Inl e, s2)
      | (Inr f, s2) \<Rightarrow> folder_DeleteTask f nm 0 s2))"

text \<open>
  \<^verbatim>\<open>list_tasks\<close> returns nothing and writes one line per task; the model returns the
  records whose name, state, next run time and path the lines show, in the order written.
\<close>

definition list_tasks :: "string \<Rightarrow> service \<Rightarrow> RegisteredTask list result" where
  "list_tasks fld s =
     (case connect s of
        (Inl e, s1) \<Rightarrow> (Inl e, s1)
      | (Inr svc, s1) \<Rightarrow>
     (case get_folder fld s1 of
        (Inl e, s2) \<Rightarrow> (Inl e, s2)
      | (Inr f, s2) \<Rightarrow> folder_GetTasks f 0 s2))"

subsection \<open>The command line\<close>

text \<open>
  \<^verbatim>\<open>argparse\<close> is modelled by what it is given and what it returns: the subcommand,
  the options supplied with a value, and the switches present. \<open>parse_args\<close> fills in
  the declared defaults, and exits with status 2 on an unknown subcommand, a missing
  required option or a value outside the declared choices.
\<close>

record argv =
  subcommand :: string
  given :: "(string \<times> string) list"
  switches :: "string list"

record Namespace =
  ns_cmd :: string
  ns_name :: string
  ns_exe :: string
  ns_args :: string
  ns_folder :: string
  ns_trigger :: string
  ns_at :: "string option"
  ns_workdir :: "string option"
  ns_highest :: bool
  ns_wake :: bool
  ns_logon :: string
  ns_username :: "string option"
  ns_password :: "string option"

definition opt_default :: "argv \<Rightarrow> string \<Rightarrow> string \<Rightarrow> string" where
  "opt_default av k d = (case map_of (given av) k of None \<Rightarrow> d | Some v \<Rightarrow> v)"

definition parse_args :: "argv \<Rightarrow> error + Namespace" where
  "parse_args av =
     (let ns = \<lparr>ns_cmd = subcommand av,
                ns_name = opt_default av ''name'' [],
                ns_exe = opt_default av ''exe'' [],
                ns_args = opt_default av ''args'' [],
                ns_folder = opt_default av ''folder'' [bs],
                ns_trigger = opt_default av ''trigger'' [],
                ns_at = map_of (given av) ''at'',
                ns_workdir = map_of (given av) ''workdir'',
                ns_highest = (''highest'' \<in> set (switches av)),
                ns_wake = (''wake'' \<in> set (switches av)),
                ns_logon = opt_default av ''logon'' ''interactive'',
                ns_username = map_of (given av) ''username'',
                ns_password = map_of (given av) ''password''\<rparr>
      in
      if subcommand av = ''register'' then
        (if map_of (given av) ''name'' = None \<or> map_of (given av) ''exe'' = None
            \<or> map_of (given av) ''trigger'' = None
            \<or> ns_trigger ns \<notin> {''daily'', ''once'', ''logon''}
            \<or> ns_logon ns \<notin> {''interactive'', ''password'', ''service''}
         then Inl (SystemExit 2) else Inr ns)
      else if subcommand av = ''run'' \<or> subcommand av = ''delete'' then
        (if map_of (given av) ''name'' = None then Inl (SystemExit 2) else Inr ns)
      else if subcommand av = ''list'' then Inr ns
      else Inl (SystemExit 2))"

definition logon_map :: "string \<Rightarrow> int option" where
  "logon_map k =
     (if k = ''interactive'' then Some TASK_LOGON_INTERACTIVE_TOKEN
      else if k = ''password'' then Some TASK_LOGON_PASSWORD
      else if k = ''service'' then Some TASK_LOGON_SERVICE_ACCOUNT
      else None)"

text \<open>
  \<^verbatim>\<open>if args.at:\<close> is false for an absent and for an empty value; only otherwise is
  the value parsed.
\<close>

definition parse_at :: "pylib \<Rightarrow> string option \<Rightarrow> error + datetime option" where
  "parse_at lib at =
     (case at of
        None \<Rightarrow> Inr None
      | Some a \<Rightarrow>
          if a = [] then Inr None
          else (case strptime lib a boundary_format of
                  Inl msg \<Rightarrow> Inl (ValueError msg)
                | Inr t \<Rightarrow> Inr (Some t)))"

definition main :: "pylib \<Rightarrow> argv \<Rightarrow> datetime \<Rightarrow> service \<Rightarrow> int result" where
  "main lib av now s =
     (case parse_args av of
        Inl e \<Rightarrow> (Inl e, s)
      | Inr args \<Rightarrow>
          if ns_cmd args = ''register'' then
            (case parse_at lib (ns_at args) of
               Inl e \<Rightarrow> (Inl e, s)
             | Inr dt \<Rightarrow>
                 (case logon_map (ns_logon args) of
                    None \<Rightarrow> (Inl (KeyError (ns_logon args)), s)
                  | Some lt \<Rightarrow>
                      (let workdir = (case ns_workdir args of
                                        None \<Rightarrow> None
                                      | Some w \<Rightarrow> if w = [] then None else Some w);
                           params = \<lparr>name = ns_name args, exe = ns_exe args,
                                     arguments = ns_args args,
                                     start_when_available = True,
                                     run_with_highest = ns_highest args,
                                     wake_to_run = ns_wake args,
                                     working_dir = workdir,
                                     folder = ns_folder args,
                                     logon_type = lt,
                                     username = ns_username args,
                                     password = ns_password args\<rparr>
                       in case register_task lib params (ns_trigger args) dt now s of
                            (Inl e, s1) \<Rightarrow> (Inl e, s1)
                          | (Inr u, s1) \<Rightarrow> (Inr 0, s1))))
          else if ns_cmd args = ''run'' then
            (case run_task (ns_name args) (ns_folder args) s of
               (Inl e, s1) \<Rightarrow> (Inl e, s1)
             | (Inr u, s1) \<Rightarrow> (Inr 0, s1))
          else if ns_cmd args = ''delete'' then
            (case delete_task (ns_name args) (ns_folder args) s of
               (Inl e, s1) \<Rightarrow> (Inl e, s1)
             | (Inr u, s1) \<Rightarrow> (Inr 0, s1))
          else if ns_cmd args = ''list'' then
            (case list_tasks (ns_folder args) s of
               (Inl e, s1) \<Rightarrow> (Inl e, s1)
             | (Inr u, s1) \<Rightarrow> (Inr 0, s1))
          else (Inr 0, s))"

subsection \<open>A library instance and a scheduler to run the model on\<close>

text \<open>
  The theorems below hold for every \<open>pylib\<close>. To evaluate the model on concrete inputs,
  \<open>lib0\<close> follows CPython on ASCII text for the directives \<^verbatim>\<open>%Y %m %d %H %M %S\<close>:
  \<^verbatim>\<open>strftime\<close> writes zero-padded fields; \<^verbatim>\<open>strptime\<close> matches the format as
  the regular expression CPython builds from it (fields of one or two digits, letters of
  the format matched without regard to case, alternatives tried in the expression's
  order), takes the first match, refuses text left over, and then refuses a date that
  does not exist and a second beyond 59. A path's text is taken as it is, apart from
  the empty path, which \<^verbatim>\<open>pathlib\<close> turns into the current directory.
\<close>

fun dec :: "nat \<Rightarrow> int \<Rightarrow> string" where
  "dec 0 n = []"
| "dec (Suc w) n = dec w (n div 10) @ [''0123456789'' ! nat (n mod 10)]"

definition civil_of_days :: "int \<Rightarrow> int \<times> int \<times> int" where
  "civil_of_days days =
     (let z = days + 306;
          era = z div 146097;
          doe = z mod 146097;
          yoe = (doe - doe div 1460 + doe div 36524 - doe div 146096) div 365;
          doy = doe - (365 * yoe + yoe div 4 - yoe div 100);
          mp = (5 * doy + 2) div 153;
          d = doy - (153 * mp + 2) div 5 + 1;
          m = (if mp < 10 then mp + 3 else mp - 9)
      in (yoe + era * 400 + (if m \<le> 2 then 1 else 0), m, d))"

definition days_of_civil :: "int \<Rightarrow> int \<Rightarrow> int \<Rightarrow> int" where
  "days_of_civil y m d =
     (let y' = (if m \<le> 2 then y - 1 else y);
          era = y' div 400;
          yoe = y' mod 400;
          doy = (153 * ((m + 9) mod 12) + 2) div 5 + d - 1
      in era * 146097 + (yoe * 365 + yoe div 4 - yoe div 100 + doy) - 306)"

text \<open>Year, month, day, hour, minute and second of a time.\<close>

type_synonym broken_time = "int \<times> int \<times> int \<times> int \<times> int \<times> int"

definition broken_down :: "datetime \<Rightarrow> broken_time" where
  "broken_down t =
     (let secs = t div 1000000;
          sod = secs mod 86400
      in case civil_of_days (secs div 86400) of
           (y, m, d) \<Rightarrow> (y, m, d, sod div 3600, sod mod 3600 div 60, sod mod 60))"

definition write_directive :: "broken_time \<Rightarrow> char \<Rightarrow> string" where
  "write_directive tm c =
     (case tm of (y, m, d, hh, mm, ss) \<Rightarrow>
        if c = CHR ''Y'' then dec 4 y
        else if c = CHR ''m'' then dec 2 m
        else if c = CHR ''d'' then dec 2 d
        else if c = CHR ''H'' then dec 2 hh
        else if c = CHR ''M'' then dec 2 mm
        else if c = CHR ''S'' then dec 2 ss
        else if c = CHR ''%'' then ''%''
        else [CHR ''%'', c])"

fun write_time :: "broken_time \<Rightarrow> string \<Rightarrow> string" where
  "write_time tm [] = []"
| "write_time tm [c] = [c]"
| "write_time tm (c # d # f) =
     (if c = CHR ''%'' then write_directive tm d @ write_time tm f
      else c # write_time tm (d # f))"

fun number :: "string \<Rightarrow> int option" where
  "number [] = Some 0"
| "number (c # cs) =
     (if c \<in> set ''0123456789''
      then (case number cs of
              None \<Rightarrow> None
            | Some n \<Rightarrow> Some ((of_char c - 48) * 10 ^ length cs + n))
      else None)"

text \<open>
  The ways a field of decimal digits can start a text: for each width, in the order
  given, the value of that many leading digits when it lies in the range, with the rest
  of the text.
\<close>

definition field :: "nat list \<Rightarrow> int \<Rightarrow> int \<Rightarrow> string \<Rightarrow> (int \<times> string) list" where
  "field widths lo hi a =
     concat (map (\<lambda>w. if w \<le> length a
                       then (case number (take w a) of
                               None \<Rightarrow> []
                             | Some v \<Rightarrow> if lo \<le> v \<and> v \<le> hi then [(v, drop w a)] else [])
                       else [])
               widths)"

definition read_directive :: "char \<Rightarrow> broken_time \<Rightarrow> string \<Rightarrow> (broken_time \<times> string) list" where
  "read_directive c tm a =
     (case tm of (y, m, d, hh, mm, ss) \<Rightarrow>
        if c = CHR ''Y'' then map (\<lambda>(v, r). ((v, m, d, hh, mm, ss), r)) (field [4] 0 9999 a)
        else if c = CHR ''m'' then map (\<lambda>(v, r). ((y, v, d, hh, mm, ss), r)) (field [2, 1] 1 12 a)
        else if c = CHR ''d'' then
          map (\<lambda>(v, r). ((y, m, v, hh, mm, ss), r))
            (field [2, 1] 1 31 a @
             (case a of [] \<Rightarrow> [] | x # r \<Rightarrow> if x = CHR '' '' then field [1] 1 9 r else []))
        else if c = CHR ''H'' then map (\<lambda>(v, r). ((y, m, d, v, mm, ss), r)) (field [2, 1] 0 23 a)
        else if c = CHR ''M'' then map (\<lambda>(v, r). ((y, m, d, hh, v, ss), r)) (field [2, 1] 0 59 a)
        else if c = CHR ''S'' then map (\<lambda>(v, r). ((y, m, d, hh, mm, v), r)) (field [2, 1] 0 61 a)
        else [])"

definition lower :: "char \<Rightarrow> char" where
  "lower c =
     (if (65::nat) \<le> of_char c \<and> of_char c \<le> (90::nat) then char_of (of_char c + (32::nat))
      else c)"

text \<open>All matches of a format at the start of a text, in the order CPython tries them.\<close>

fun read_time :: "string \<Rightarrow> broken_time \<Rightarrow> string \<Rightarrow> (broken_time \<times> string) list" where
  "read_time [] tm a = [(tm, a)]"
| "read_time (c # f) tm a =
     (if c = CHR ''%'' then
        (case f of
           [] \<Rightarrow> []
         | d # f' \<Rightarrow> concat (map (\<lambda>x. read_time f' (fst x) (snd x)) (read_directive d tm a)))
      else (case a of
              [] \<Rightarrow> []
            | x # r \<Rightarrow> if lower x = lower c then read_time f tm r else []))"

definition quoted :: "string \<Rightarrow> string" where
  "quoted a = [CHR 0x27] @ a @ [CHR 0x27]"

definition lib0_strptime :: "string \<Rightarrow> string \<Rightarrow> string + datetime" where
  "lib0_strptime a f =
     (case read_time f (1900, 1, 1, 0, 0, 0) a of
        [] \<Rightarrow> Inl (''time data '' @ quoted a @ '' does not match format '' @ quoted f)
      | (tm, r) # others \<Rightarrow>
          if r \<noteq> [] then Inl (''unconverted data remains: '' @ r)
          else (case tm of (y, m, d, hh, mm, ss) \<Rightarrow>
                  if y < 1 then Inl (''year 0 is out of range'')
                  else if civil_of_days (days_of_civil y m d) \<noteq> (y, m, d)
                  then Inl (''day is out of range for month'')
                  else if 59 < ss then Inl (''second must be in 0..59'')
                  else Inr ((((days_of_civil y m d * 24 + hh) * 60 + mm) * 60 + ss) * 1000000)))"

definition lib0 :: pylib where
  "lib0 =
     \<lparr>strptime = lib0_strptime,
      strftime = (\<lambda>t f. write_time (broken_down t) f),
      path_str = (\<lambda>p. if p = [] then ''.'' else p),
      path_name = (\<lambda>p. last (str_split bs p))\<rparr>"

text \<open>A reachable scheduler with only the root folder and no task.\<close>

definition svc0 :: service where
  "svc0 = \<lparr>reachable = True, folders = {[]}, tasks = [], calls = []\<rparr>"

subsection \<open>Reading the journal and the scheduler's state\<close>

text \<open>
  What a journal says was asked of the scheduler: the folders created (handle and name),
  the registrations submitted (their definitions, their credentials with the logon type,
  their folder, name and flags), the runs requested and the enumerations made.
\<close>

definition created :: "call list \<Rightarrow> (string list \<times> string) list" where
  "created cs = concat (map (\<lambda>c. case c of CreateFolder h p \<Rightarrow> [(h, p)] | _ \<Rightarrow> []) cs)"

definition submitted_definitions :: "call list \<Rightarrow> TaskDefinition list" where
  "submitted_definitions cs =
     concat (map (\<lambda>c. case c of RegisterTaskDefinition h n td fl u pw l \<Rightarrow> [td] | _ \<Rightarrow> []) cs)"

definition submitted_credentials :: "call list \<Rightarrow> (string \<times> string \<times> int) list" where
  "submitted_credentials cs =
     concat (map (\<lambda>c. case c of RegisterTaskDefinition h n td fl u pw l \<Rightarrow> [(u, pw, l)]
                               | _ \<Rightarrow> []) cs)"

definition submitted_keys :: "call list \<Rightarrow> (string list \<times> string \<times> int) list" where
  "submitted_keys cs =
     concat (map (\<lambda>c. case c of RegisterTaskDefinition h n td fl u pw l \<Rightarrow> [(h, n, fl)]
                               | _ \<Rightarrow> []) cs)"

definition run_requests :: "call list \<Rightarrow> (string list \<times> string) list" where
  "run_requests cs = concat (map (\<lambda>c. case c of Run h n a \<Rightarrow> [(h, n)] | _ \<Rightarrow> []) cs)"

definition enumerations :: "call list \<Rightarrow> (string list \<times> int) list" where
  "enumerations cs = concat (map (\<lambda>c. case c of GetTasks h fl \<Rightarrow> [(h, fl)] | _ \<Rightarrow> []) cs)"

fun is_folder_call :: "call \<Rightarrow> bool" where
  "is_folder_call (ServiceGetFolder p) = True"
| "is_folder_call (GetFolder h p) = True"
| "is_folder_call (CreateFolder h p) = True"
| "is_folder_call c = False"

text \<open>
  The folders of a scheduler form a tree: the root exists, and so does the parent of
  every folder.
\<close>

definition wf_service :: "service \<Rightarrow> bool" where
  "wf_service s = ([] \<in> folders s \<and> (\<forall>q \<in> folders s. butlast q \<in> folders s))"

text \<open>A job below the folder \<^verbatim>\<open>\Jobs\<close>, and a reading of the clock (2025-08-18T09:00:00).\<close>

definition job0 :: TaskParams where
  "job0 = (TaskParams_init ''Job'' ''x.exe'')\<lparr>folder := [bs] @ ''Jobs''\<rparr>"

definition clock0 :: datetime where
  "clock0 = 63891104400000000"

text \<open>A command line that registers a daily job and names no folder and no time.\<close>

definition argv0 :: argv where
  "argv0 = \<lparr>subcommand = ''register'',
            given = [(''name'', ''Job''), (''exe'', ''x.exe''), (''trigger'', ''daily'')],
            switches = []\<rparr>"

section \<open>Properties\<close>

subsection \<open>Splitting paths\<close>

lemma str_split_nonempty: "str_split c s \<noteq> []"
  by (induction s) (auto split: list.splits)

lemma str_split_free: "w \<in> set (str_split c s) \<Longrightarrow> c \<notin> set w"
proof (induction s arbitrary: w)
  case Nil
  then show ?case by simp
next
  case (Cons x xs)
  show ?case
  proof (cases "x = c")
    case True
    with Cons show ?thesis by auto
  next
    case False
    obtain v vs where sp: "str_split c xs = v # vs"
      using str_split_nonempty [of c xs] by (cases "str_split c xs") auto
    with Cons False show ?thesis by auto
  qed
qed

lemma str_split_single: "c \<notin> set w \<Longrightarrow> str_split c w = [w]"
  by (induction w) auto

lemma parts_valid: "p \<in> set (parts path) \<Longrightarrow> p \<noteq> [] \<and> bs \<notin> set p"
  by (auto simp: parts_def dest: str_split_free)

lemma dropWhile_free: "p \<noteq> [] \<Longrightarrow> c \<notin> set p \<Longrightarrow> dropWhile (\<lambda>x. x = c) p = p"
  by (cases p) auto

lemma last_free: "p \<noteq> [] \<Longrightarrow> c \<notin> set p \<Longrightarrow> last p \<noteq> c"
  using last_in_set by metis

lemma arg_path_part: "p \<noteq> [] \<Longrightarrow> bs \<notin> set p \<Longrightarrow> arg_path p = Some [p]"
  by (auto simp: arg_path_def Let_def dropWhile_free str_split_single last_free)

lemma arg_path_bs_part: "p \<noteq> [] \<Longrightarrow> bs \<notin> set p \<Longrightarrow> arg_path (bs # p) = Some [p]"
  by (auto simp: arg_path_def Let_def dropWhile_free str_split_single last_free)

lemma strip_dropWhile:
  assumes "r = dropWhile (\<lambda>x. x = c) p" "r \<noteq> []" "last r \<noteq> c"
  shows "str_strip c p = r"
proof -
  have "rev r \<noteq> []" using assms by simp
  moreover have "hd (rev r) \<noteq> c" using assms by (simp add: hd_rev)
  ultimately have "dropWhile (\<lambda>x. x = c) (rev r) = rev r"
    by (cases "rev r") auto
  then show ?thesis using assms by (simp add: str_strip_def)
qed

lemma arg_path_parts: "arg_path p = Some segs \<Longrightarrow> segs = parts p"
proof (cases "p = [bs]")
  case True
  assume "arg_path p = Some segs"
  with True show ?thesis by (simp add: arg_path_def parts_def str_strip_def)
next
  case False
  assume a: "arg_path p = Some segs"
  define r where "r = dropWhile (\<lambda>x. x = bs) p"
  from a False have r: "r \<noteq> []" "last r \<noteq> bs" "[] \<notin> set (str_split bs r)" "segs = str_split bs r"
    by (auto simp: arg_path_def Let_def r_def split: if_splits)
  have "str_strip bs p = r" using strip_dropWhile [OF r_def r(1) r(2)] .
  then have "parts p = filter (\<lambda>q. q \<noteq> []) (str_split bs r)" by (simp add: parts_def)
  also have "\<dots> = str_split bs r" using r(3) by (simp add: filter_id_conv) metis
  finally show ?thesis using r(4) by simp
qed

subsection \<open>Walking and creating folders\<close>

lemma created_append: "created (xs @ ys) = created xs @ created ys"
  by (simp add: created_def)

lemma created_simps:
  "created [] = []"
  "created (CreateFolder h p # cs) = (h, p) # created cs"
  "created (GetFolder h p # cs) = created cs"
  "created (ServiceGetFolder p # cs) = created cs"
  by (simp_all add: created_def)

lemma segment_folders_longer: "q \<in> set (segment_folders h ps) \<Longrightarrow> length h < length q"
  by (induction ps arbitrary: h) fastforce+

lemma segment_folders_last: "ps \<noteq> [] \<Longrightarrow> h @ ps \<in> set (segment_folders h ps)"
  by (induction ps arbitrary: h) (auto, metis append_Cons append_Nil append_assoc)

lemma segment_folders_butlast:
  "q \<in> set (segment_folders h ps) \<Longrightarrow> butlast q = h \<or> butlast q \<in> set (segment_folders h ps)"
  by (induction ps arbitrary: h) (auto simp: butlast_append)

lemma walk_spec:
  assumes "\<forall>p \<in> set ps. p \<noteq> [] \<and> bs \<notin> set p"
  shows "fst (walk parent ps s) = Inr (parent @ ps)
       \<and> folders (snd (walk parent ps s)) = folders s \<union> set (segment_folders parent ps)
       \<and> tasks (snd (walk parent ps s)) = tasks s
       \<and> reachable (snd (walk parent ps s)) = reachable s
       \<and> created (calls (snd (walk parent ps s))) =
           created (calls s) @
           map (\<lambda>q. (butlast q, last q))
             (filter (\<lambda>q. q \<notin> folders s) (segment_folders parent ps))"
  using assms
proof (induction ps arbitrary: parent s)
  case Nil
  then show ?case by simp
next
  case (Cons p ps)
  then have p: "p \<noteq> []" "bs \<notin> set p" and ps: "\<forall>p \<in> set ps. p \<noteq> [] \<and> bs \<notin> set p"
    by auto
  note IH = Cons.IH [OF ps]
  have far: "\<And>q. q \<in> set (segment_folders (parent @ [p]) ps) \<Longrightarrow> q \<noteq> parent @ [p]"
    using segment_folders_longer by fastforce
  show ?case
  proof (cases "parent @ [p] \<in> folders s")
    case True
    define s1 where "s1 = journal (GetFolder parent (bs # p)) s"
    have step: "walk parent (p # ps) s = walk (parent @ [p]) ps s1"
      using True p by (simp add: folder_GetFolder_def folder_GetFolder_as_def lookup_base_def lookup_folder_def arg_path_bs_part journal_def s1_def)
    have s1: "folders s1 = folders s" "tasks s1 = tasks s" "reachable s1 = reachable s"
      "created (calls s1) = created (calls s)"
      by (simp_all add: s1_def journal_def created_append created_simps)
    show ?thesis
      unfolding step using IH [of "parent @ [p]" s1] True by (simp add: s1 insert_absorb)
  next
    case False
    define s1 where "s1 = journal (GetFolder parent (bs # p)) s"
    define s2 where "s2 = (journal (CreateFolder parent p) s1)\<lparr>folders := insert (parent @ [p]) (folders s)\<rparr>"
    have step: "walk parent (p # ps) s = walk (parent @ [p]) ps s2"
      using False p by (simp add: folder_GetFolder_def folder_GetFolder_as_def lookup_base_def lookup_folder_def arg_path_bs_part
          arg_path_part folder_CreateFolder_def journal_def s1_def s2_def Let_def)
    have s2: "folders s2 = insert (parent @ [p]) (folders s)" "tasks s2 = tasks s"
      "reachable s2 = reachable s"
      "created (calls s2) = created (calls s) @ [(parent, p)]"
      by (simp_all add: s1_def s2_def journal_def created_append created_simps)
    have filt: "filter (\<lambda>q. q \<noteq> parent @ [p] \<and> q \<notin> folders s) (segment_folders (parent @ [p]) ps)
              = filter (\<lambda>q. q \<notin> folders s) (segment_folders (parent @ [p]) ps)"
      using far by (intro filter_cong) auto
    show ?thesis
      unfolding step using IH [of "parent @ [p]" s2] False by (simp add: s2 filt)
  qed
qed

lemma wf_take: "wf_service s \<Longrightarrow> q \<in> folders s \<Longrightarrow> take k q \<in> folders s"
proof (induction q rule: rev_induct)
  case Nil
  then show ?case by simp
next
  case (snoc x xs)
  then have "xs \<in> folders s" unfolding wf_service_def by (metis butlast_snoc)
  with snoc show ?case by (cases "k \<le> length xs") auto
qed

lemma segment_folders_take: "q \<in> set (segment_folders h ps) \<Longrightarrow> \<exists>k. q = h @ take k ps"
proof (induction ps arbitrary: h)
  case Nil
  then show ?case by simp
next
  case (Cons p ps)
  from Cons.prems consider "q = h @ [p]" | "q \<in> set (segment_folders (h @ [p]) ps)" by auto
  then show ?case
  proof cases
    case 1
    then have "q = h @ take 1 (p # ps)" by simp
    then show ?thesis by blast
  next
    case 2
    then obtain k where "q = (h @ [p]) @ take k ps" using Cons.IH by blast
    then have "q = h @ take (Suc k) (p # ps)" by simp
    then show ?thesis by blast
  qed
qed

lemma wf_segments: "wf_service s \<Longrightarrow> ps \<in> folders s \<Longrightarrow> set (segment_folders [] ps) \<subseteq> folders s"
  using segment_folders_take [of _ "[]" ps] wf_take [of s ps] by fastforce

lemma wf_extend:
  assumes "wf_service s" "folders s' = folders s \<union> set (segment_folders [] ps)"
  shows "wf_service s'"
  unfolding wf_service_def
proof (intro conjI ballI)
  show "[] \<in> folders s'" using assms by (simp add: wf_service_def)
next
  fix q assume "q \<in> folders s'"
  then consider "q \<in> folders s" | "q \<in> set (segment_folders [] ps)" using assms by auto
  then show "butlast q \<in> folders s'"
  proof cases
    case 1
    then show ?thesis using assms by (simp add: wf_service_def)
  next
    case 2
    from segment_folders_butlast [OF 2] show ?thesis using assms by (auto simp: wf_service_def)
  qed
qed

lemma get_folder_spec:
  assumes wf: "wf_service s"
  shows "fst (get_folder path s) = Inr (parts path)
       \<and> folders (snd (get_folder path s)) = folders s \<union> set (segment_folders [] (parts path))
       \<and> tasks (snd (get_folder path s)) = tasks s
       \<and> reachable (snd (get_folder path s)) = reachable s
       \<and> created (calls (snd (get_folder path s))) =
           created (calls s) @
           map (\<lambda>q. (butlast q, last q))
             (filter (\<lambda>q. q \<notin> folders s) (segment_folders [] (parts path)))"
proof (cases "\<exists>segs. arg_path path = Some segs \<and> segs \<in> folders s")
  case True
  then obtain segs where segs: "arg_path path = Some segs" "segs \<in> folders s" by blast
  then have eq: "segs = parts path" using arg_path_parts by blast
  have sub: "set (segment_folders [] (parts path)) \<subseteq> folders s"
    using wf_segments [OF wf] segs eq by blast
  then have none: "filter (\<lambda>q. q \<notin> folders s) (segment_folders [] (parts path)) = []"
    by (auto simp: filter_empty_conv)
  have "get_folder path s = (Inr segs, journal (ServiceGetFolder path) s)"
    using segs by (simp add: get_folder_def service_GetFolder_def lookup_folder_def journal_def)
  then show ?thesis using sub none eq
    by (auto simp: journal_def created_append created_simps)
next
  case False
  define s1 where "s1 = journal (ServiceGetFolder path) s"
  define s2 where "s2 = journal (ServiceGetFolder [bs]) s1"
  have root: "[] \<in> folders s" using wf by (simp add: wf_service_def)
  have fail: "\<exists>e. service_GetFolder path s = (Inl e, s1)"
    using False by (auto simp: service_GetFolder_def lookup_folder_def journal_def s1_def
        split: option.splits)
  have ok: "service_GetFolder [bs] s1 = (Inr [], s2)"
    using root by (simp add: service_GetFolder_def lookup_folder_def journal_def s1_def s2_def
        arg_path_def)
  have step: "get_folder path s = walk [] (parts path) s2"
    using fail ok by (auto simp: get_folder_def)
  have s2: "folders s2 = folders s" "tasks s2 = tasks s" "reachable s2 = reachable s"
    "created (calls s2) = created (calls s)"
    by (simp_all add: s1_def s2_def journal_def created_append created_simps)
  have valid: "\<forall>p \<in> set (parts path). p \<noteq> [] \<and> bs \<notin> set p"
    using parts_valid by blast
  show ?thesis unfolding step using walk_spec [OF valid, of "[]" s2] by (simp add: s2)
qed


subsection \<open>What the operations leave alone\<close>

lemma journal_simps:
  "folders (journal c s) = folders s"
  "tasks (journal c s) = tasks s"
  "reachable (journal c s) = reachable s"
  "calls (journal c s) = calls s @ [c]"
  by (simp_all add: journal_def)

lemma wf_journal: "wf_service (journal c s) = wf_service s"
  by (simp add: wf_service_def journal_simps)

lemma lookup_folder_snd: "snd (lookup_folder h p s) = s"
  by (simp add: lookup_folder_def split: option.splits)

lemma folder_GetFolder_snd: "snd (folder_GetFolder h p s) = journal (GetFolder h p) s"
  by (simp add: folder_GetFolder_def folder_GetFolder_as_def lookup_base_def lookup_folder_snd)

lemma service_GetFolder_snd: "snd (service_GetFolder p s) = journal (ServiceGetFolder p) s"
  by (simp add: service_GetFolder_def lookup_folder_snd)

lemma folder_CreateFolder_frame:
  "tasks (snd (folder_CreateFolder h p s)) = tasks s"
  "reachable (snd (folder_CreateFolder h p s)) = reachable s"
  "calls (snd (folder_CreateFolder h p s)) = calls s @ [CreateFolder h p]"
  by (simp_all add: folder_CreateFolder_def Let_def journal_simps split: option.splits)

lemma walk_frame:
  "tasks (snd (walk h ps s)) = tasks s
   \<and> reachable (snd (walk h ps s)) = reachable s
   \<and> (\<exists>cs. calls (snd (walk h ps s)) = calls s @ cs \<and> list_all is_folder_call cs)"
proof (induction ps arbitrary: h s)
  case Nil
  show ?case by simp
next
  case (Cons p ps)
  obtain r1 s1 where g: "folder_GetFolder h (bs # p) s = (r1, s1)" by (cases "folder_GetFolder h (bs # p) s")
  then have s1: "s1 = journal (GetFolder h (bs # p)) s" using folder_GetFolder_snd [of h "bs # p" s] by simp
  show ?case
  proof (cases r1)
    case (Inr f)
    from Cons.IH [of f s1] obtain cs where
      "tasks (snd (walk f ps s1)) = tasks s1" "reachable (snd (walk f ps s1)) = reachable s1"
      "calls (snd (walk f ps s1)) = calls s1 @ cs" "list_all is_folder_call cs" by blast
    then have "tasks (snd (walk f ps s1)) = tasks s \<and> reachable (snd (walk f ps s1)) = reachable s
      \<and> calls (snd (walk f ps s1)) = calls s @ (GetFolder h (bs # p) # cs)
      \<and> list_all is_folder_call (GetFolder h (bs # p) # cs)"
      by (simp add: s1 journal_simps)
    then show ?thesis using g Inr by auto
  next
    case (Inl e)
    obtain r2 s2 where c: "folder_CreateFolder h p s1 = (r2, s2)" by (cases "folder_CreateFolder h p s1")
    then have s2: "tasks s2 = tasks s" "reachable s2 = reachable s"
      "calls s2 = calls s @ [GetFolder h (bs # p), CreateFolder h p]"
      using folder_CreateFolder_frame [of h p s1] by (simp_all add: s1 journal_simps)
    show ?thesis
    proof (cases r2)
      case (Inl e')
      have "list_all is_folder_call [GetFolder h (bs # p), CreateFolder h p]" by simp
      then show ?thesis using g c \<open>r1 = Inl e\<close> Inl s2 by auto
    next
      case (Inr f)
      from Cons.IH [of f s2] obtain cs where
        "tasks (snd (walk f ps s2)) = tasks s2" "reachable (snd (walk f ps s2)) = reachable s2"
        "calls (snd (walk f ps s2)) = calls s2 @ cs" "list_all is_folder_call cs" by blast
      then have "tasks (snd (walk f ps s2)) = tasks s \<and> reachable (snd (walk f ps s2)) = reachable s
        \<and> calls (snd (walk f ps s2)) = calls s @ (GetFolder h (bs # p) # CreateFolder h p # cs)
        \<and> list_all is_folder_call (GetFolder h (bs # p) # CreateFolder h p # cs)"
        by (simp add: s2)
      then show ?thesis using g c \<open>r1 = Inl e\<close> Inr by auto
    qed
  qed
qed

lemma get_folder_frame:
  "tasks (snd (get_folder path s)) = tasks s
   \<and> reachable (snd (get_folder path s)) = reachable s
   \<and> (\<exists>cs. calls (snd (get_folder path s)) = calls s @ cs \<and> list_all is_folder_call cs)"
proof -
  obtain r1 s1 where g: "service_GetFolder path s = (r1, s1)" by (cases "service_GetFolder path s")
  then have s1: "s1 = journal (ServiceGetFolder path) s" using service_GetFolder_snd [of path s] by simp
  show ?thesis
  proof (cases r1)
    case (Inr f)
    have "list_all is_folder_call [ServiceGetFolder path]" by simp
    then show ?thesis using g Inr by (auto simp: get_folder_def s1 journal_simps)
  next
    case (Inl e)
    obtain r2 s2 where g2: "service_GetFolder [bs] s1 = (r2, s2)" by (cases "service_GetFolder [bs] s1")
    then have s2: "s2 = journal (ServiceGetFolder [bs]) s1" using service_GetFolder_snd [of "[bs]" s1] by simp
    show ?thesis
    proof (cases r2)
      case (Inl e')
      have "list_all is_folder_call [ServiceGetFolder path, ServiceGetFolder [bs]]" by simp
      then show ?thesis using g g2 \<open>r1 = Inl e\<close> Inl by (auto simp: get_folder_def s1 s2 journal_simps)
    next
      case (Inr parent)
      from walk_frame [of parent "parts path" s2] obtain cs where
        "tasks (snd (walk parent (parts path) s2)) = tasks s2"
        "reachable (snd (walk parent (parts path) s2)) = reachable s2"
        "calls (snd (walk parent (parts path) s2)) = calls s2 @ cs" "list_all is_folder_call cs" by blast
      then have "tasks (snd (walk parent (parts path) s2)) = tasks s
        \<and> reachable (snd (walk parent (parts path) s2)) = reachable s
        \<and> calls (snd (walk parent (parts path) s2)) = calls s @ (ServiceGetFolder path # ServiceGetFolder [bs] # cs)
        \<and> list_all is_folder_call (ServiceGetFolder path # ServiceGetFolder [bs] # cs)"
        by (simp add: s1 s2 journal_simps)
      then show ?thesis using g g2 \<open>r1 = Inl e\<close> Inr by (auto simp: get_folder_def)
    qed
  qed
qed

lemma folder_calls_silent:
  assumes "list_all is_folder_call cs"
  shows "submitted_definitions cs = []" "submitted_credentials cs = []" "submitted_keys cs = []"
    "run_requests cs = []" "enumerations cs = []"
proof -
  have "\<And>c. c \<in> set cs \<Longrightarrow> is_folder_call c" using assms by (simp add: list_all_iff)
  then have "\<And>c. c \<in> set cs \<Longrightarrow> (\<exists>p. c = ServiceGetFolder p) \<or> (\<exists>h p. c = GetFolder h p) \<or> (\<exists>h p. c = CreateFolder h p)"
    by (metis is_folder_call.elims(2))
  then show "submitted_definitions cs = []" "submitted_credentials cs = []" "submitted_keys cs = []"
    "run_requests cs = []" "enumerations cs = []"
    unfolding submitted_definitions_def submitted_credentials_def submitted_keys_def
      run_requests_def enumerations_def by fastforce+
qed

lemma readers_append:
  "submitted_definitions (cs @ ds) = submitted_definitions cs @ submitted_definitions ds"
  "submitted_credentials (cs @ ds) = submitted_credentials cs @ submitted_credentials ds"
  "submitted_keys (cs @ ds) = submitted_keys cs @ submitted_keys ds"
  "run_requests (cs @ ds) = run_requests cs @ run_requests ds"
  "enumerations (cs @ ds) = enumerations cs @ enumerations ds"
  by (simp_all add: submitted_definitions_def submitted_credentials_def submitted_keys_def
      run_requests_def enumerations_def)

lemma register_task_unfold:
  "register_task lib p k w now s =
     (if \<not> reachable s
      then (Inl (com_error E_ACCESS), journal Connect (journal (Dispatch ''Schedule.Service'') s))
      else (case get_folder (folder p) (journal Connect (journal (Dispatch ''Schedule.Service'') s)) of
         (Inl e, s2) \<Rightarrow> (Inl e, s2)
       | (Inr f, s2) \<Rightarrow>
          (case attach_trigger lib (fill_task_def lib p blank_definition) k w now of
             Inl e \<Rightarrow> (Inl e, journal (NewTask 0) s2)
           | Inr td' \<Rightarrow>
               folder_RegisterTaskDefinition f (name p) td' TASK_CREATE_OR_UPDATE
                 (str_or (username p) []) (str_or (password p) []) (logon_type p)
                 (journal (NewTask 0) s2))))"
  by (simp add: register_task_def connect_def service_Connect_def base_task_def_def
      service_NewTask_def Let_def journal_simps split: prod.splits sum.splits)

lemma register_definition_upsert:
  "folder_RegisterTaskDefinition f n td TASK_CREATE_OR_UPDATE u pw l s =
     (Inr (), (journal (RegisterTaskDefinition f n td 6 u pw l) s)
                \<lparr>tasks := AList.update (f, n) (stored td u pw l) (tasks s)\<rparr>)"
  by (simp add: folder_RegisterTaskDefinition_def TASK_CREATE_OR_UPDATE_def Let_def journal_simps
      split: option.splits)

subsection \<open>Folder resolution\<close>













subsection \<open>Registration\<close>

lemma register_task_calls:
  "\<exists>r s2 cs. get_folder (folder p) (journal Connect (journal (Dispatch ''Schedule.Service'') s)) = (r, s2)
     \<and> list_all is_folder_call cs
     \<and> calls s2 = calls s @ [Dispatch ''Schedule.Service'', Connect] @ cs
     \<and> tasks s2 = tasks s \<and> reachable s2 = reachable s"
proof -
  define s1 where "s1 = journal Connect (journal (Dispatch ''Schedule.Service'') s)"
  obtain r s2 where g: "get_folder (folder p) s1 = (r, s2)" by (cases "get_folder (folder p) s1")
  from get_folder_frame [of "folder p" s1] g obtain cs where
    "tasks s2 = tasks s1" "reachable s2 = reachable s1" "calls s2 = calls s1 @ cs"
    "list_all is_folder_call cs" by auto
  then show ?thesis using g unfolding s1_def by (auto simp: journal_simps)
qed

lemma register_task_success:
  assumes "fst (register_task lib p k w now s) = Inr ()"
  shows "\<exists>f cs td s2.
      get_folder (folder p) (journal Connect (journal (Dispatch ''Schedule.Service'') s)) = (Inr f, s2)
    \<and> attach_trigger lib (fill_task_def lib p blank_definition) k w now = Inr td
    \<and> list_all is_folder_call cs
    \<and> calls (snd (register_task lib p k w now s)) =
        calls s @ [Dispatch ''Schedule.Service'', Connect] @ cs @
        [NewTask 0,
         RegisterTaskDefinition f (name p) td 6 (str_or (username p) []) (str_or (password p) [])
           (logon_type p)]
    \<and> tasks (snd (register_task lib p k w now s)) =
        AList.update (f, name p)
          (stored td (str_or (username p) []) (str_or (password p) []) (logon_type p)) (tasks s)
    \<and> folders (snd (register_task lib p k w now s)) = folders s2
    \<and> reachable s"
proof -
  from register_task_calls [of p s] obtain r s2 cs where
    g: "get_folder (folder p) (journal Connect (journal (Dispatch ''Schedule.Service'') s)) = (r, s2)"
    and cs: "list_all is_folder_call cs"
    "calls s2 = calls s @ [Dispatch ''Schedule.Service'', Connect] @ cs"
    "tasks s2 = tasks s" by blast
  have reach: "reachable s" using assms by (auto simp: register_task_unfold split: if_splits)
  from assms reach g obtain f where f: "r = Inr f"
    by (cases r) (auto simp: register_task_unfold)
  from assms reach g f obtain td where
    td: "attach_trigger lib (fill_task_def lib p blank_definition) k w now = Inr td"
    by (cases "attach_trigger lib (fill_task_def lib p blank_definition) k w now")
      (auto simp: register_task_unfold)
  have "register_task lib p k w now s =
      (Inr (), (journal (RegisterTaskDefinition f (name p) td 6 (str_or (username p) [])
                  (str_or (password p) []) (logon_type p)) (journal (NewTask 0) s2))
                \<lparr>tasks := AList.update (f, name p)
                    (stored td (str_or (username p) []) (str_or (password p) []) (logon_type p))
                    (tasks (journal (NewTask 0) s2))\<rparr>)"
    using reach g f td by (simp add: register_task_unfold register_definition_upsert)
  then show ?thesis using g f td cs reach by (simp add: journal_simps)
qed

lemma register_task_wf:
  assumes "wf_service s" "reachable s"
    "attach_trigger lib (fill_task_def lib p blank_definition) k w now = Inr td"
  shows "fst (register_task lib p k w now s) = Inr ()
    \<and> tasks (snd (register_task lib p k w now s)) =
        AList.update (parts (folder p), name p)
          (stored td (str_or (username p) []) (str_or (password p) []) (logon_type p)) (tasks s)
    \<and> folders (snd (register_task lib p k w now s)) =
        folders s \<union> set (segment_folders [] (parts (folder p)))
    \<and> reachable (snd (register_task lib p k w now s))
    \<and> submitted_keys (calls (snd (register_task lib p k w now s))) =
        submitted_keys (calls s) @ [(parts (folder p), name p, 6)]"
proof -
  define s1 where "s1 = journal Connect (journal (Dispatch ''Schedule.Service'') s)"
  have wf1: "wf_service s1" using assms(1) by (simp add: s1_def wf_journal)
  obtain r s2 where g: "get_folder (folder p) s1 = (r, s2)" by (cases "get_folder (folder p) s1")
  from get_folder_spec [OF wf1, of "folder p"] g
  have r: "r = Inr (parts (folder p))"
    and s2: "folders s2 = folders s \<union> set (segment_folders [] (parts (folder p)))"
    "tasks s2 = tasks s" "reachable s2 = reachable s"
    by (simp_all add: s1_def journal_simps)
  from get_folder_frame [of "folder p" s1] g obtain cs where
    cs: "calls s2 = calls s1 @ cs" "list_all is_folder_call cs" by auto
  have "register_task lib p k w now s =
      (Inr (), (journal (RegisterTaskDefinition (parts (folder p)) (name p) td 6 (str_or (username p) [])
                  (str_or (password p) []) (logon_type p)) (journal (NewTask 0) s2))
                \<lparr>tasks := AList.update (parts (folder p), name p)
                    (stored td (str_or (username p) []) (str_or (password p) []) (logon_type p))
                    (tasks (journal (NewTask 0) s2))\<rparr>)"
    using assms(2,3) g r unfolding s1_def
    by (simp add: register_task_unfold register_definition_upsert)
  then show ?thesis using s2 cs assms(2) folder_calls_silent(3) [OF cs(2)]
    by (simp add: journal_simps s1_def readers_append submitted_keys_def)
qed

subsection \<open>Attaching the trigger\<close>

lemma attach_trigger_unsupported:
  "k \<notin> {''daily'', ''once'', ''logon''} \<Longrightarrow>
   attach_trigger lib td k w now = Inl (ValueError ''trigger must be one of: daily | once | logon'')"
  by (simp add: attach_trigger_def)

lemma attach_trigger_shape:
  "attach_trigger lib td k w now = Inr td' \<Longrightarrow>
   Actions td' = Actions td \<and> length (Triggers td') = Suc (length (Triggers td))"
  by (auto simp: attach_trigger_def add_daily_trigger_def add_once_trigger_def
      add_logon_trigger_def split: if_splits sum.splits)

lemma attach_trigger_default:
  assumes "k = ''daily'' \<or> k = ''once''" "attach_trigger lib td k None now = Inr td'"
  shows "map StartBoundary (Triggers td') =
           map StartBoundary (Triggers td) @
           [Some (strftime lib (now + timedelta_minutes 2) boundary_format)]
       \<and> 0 \<le> now + timedelta_minutes 2 \<and> now + timedelta_minutes 2 \<le> datetime_max"
  using assms
  by (auto simp: attach_trigger_def add_daily_trigger_def add_once_trigger_def
      when_or_default_def datetime_add_def split: if_splits sum.splits)

lemma attach_trigger_fails_alike:
  "isl (attach_trigger lib td k w now) = isl (attach_trigger lib td' k w now)"
  "attach_trigger lib td k w now = Inl e \<Longrightarrow> attach_trigger lib td' k w now = Inl e"
  by (auto simp: attach_trigger_def split: if_splits sum.splits)

lemma fill_task_def_lists:
  "Triggers (fill_task_def lib p blank_definition) = []"
  "map Path (Actions (fill_task_def lib p blank_definition)) = [path_str lib (exe p)]"
  "length (Actions (fill_task_def lib p blank_definition)) = 1"
  by (simp_all add: fill_task_def_def blank_definition_def Let_def)

lemma base_task_def_eq:
  "base_task_def lib p s = (Inr (fill_task_def lib p blank_definition), journal (NewTask 0) s)"
  by (simp add: base_task_def_def service_NewTask_def)

lemma register_task_failure:
  assumes "attach_trigger lib (fill_task_def lib p blank_definition) k w now = Inl e"
  shows "isl (fst (register_task lib p k w now s))
       \<and> tasks (snd (register_task lib p k w now s)) = tasks s
       \<and> submitted_keys (calls (snd (register_task lib p k w now s))) = submitted_keys (calls s)
       \<and> take 2 (drop (length (calls s)) (calls (snd (register_task lib p k w now s))))
           = [Dispatch ''Schedule.Service'', Connect]"
proof -
  from register_task_calls [of p s] obtain r s2 cs where
    g: "get_folder (folder p) (journal Connect (journal (Dispatch ''Schedule.Service'') s)) = (r, s2)"
    and cs: "list_all is_folder_call cs"
    "calls s2 = calls s @ [Dispatch ''Schedule.Service'', Connect] @ cs"
    "tasks s2 = tasks s" by blast
  have k: "submitted_keys (calls s2) = submitted_keys (calls s)"
    using cs folder_calls_silent(3) [OF cs(1)] by (simp add: readers_append submitted_keys_def)
  show ?thesis
  proof (cases "reachable s")
    case False
    then show ?thesis
      by (simp add: register_task_unfold journal_simps readers_append submitted_keys_def)
  next
    case True
    show ?thesis
    proof (cases r)
      case (Inl e')
      with True g cs k show ?thesis by (simp add: register_task_unfold)
    next
      case (Inr f)
      with True g cs k assms show ?thesis
        by (simp add: register_task_unfold journal_simps readers_append submitted_keys_def)
    qed
  qed
qed

subsection \<open>Unsupported trigger kinds\<close>

text \<open>
  The check of the trigger kind comes after the connection, the folder resolution and the
  request for a blank definition: on a scheduler with only the root folder, registering
  with the kind \<^verbatim>\<open>weekly\<close> raises the \<^verbatim>\<open>ValueError\<close> after seven calls, one of
  which has created the folder.
\<close>

theorem register_task_unsupported_counterexample:
  "fst (register_task lib0 job0 ''weekly'' None clock0 svc0)
     = Inl (ValueError ''trigger must be one of: daily | once | logon'')
   \<and> calls (snd (register_task lib0 job0 ''weekly'' None clock0 svc0))
     = [Dispatch ''Schedule.Service'', Connect, ServiceGetFolder ([bs] @ ''Jobs''),
        ServiceGetFolder [bs], GetFolder [] ([bs] @ ''Jobs''), CreateFolder [] ''Jobs'',
        NewTask 0]
   \<and> calls svc0 = []"
  by code_simp

text \<open>
  Claim C1, as amended. For a trigger kind other than \<^verbatim>\<open>daily\<close>, \<^verbatim>\<open>once\<close> and
  \<^verbatim>\<open>logon\<close>, \<^verbatim>\<open>register_task\<close> fails, leaves the registered tasks as they are
  and submits no registration; it does so after opening the connection. On a reachable
  scheduler whose folders form a tree the failure is the \<^verbatim>\<open>ValueError\<close> of the trigger
  check, raised after the folder has been resolved and its missing segments created, and
  after a blank definition has been requested, which is the last call made.
\<close>

theorem register_task_unsupported:
  assumes "k \<notin> {''daily'', ''once'', ''logon''}"
  shows "isl (fst (register_task lib p k w now s))
       \<and> tasks (snd (register_task lib p k w now s)) = tasks s
       \<and> submitted_keys (calls (snd (register_task lib p k w now s))) = submitted_keys (calls s)
       \<and> take 2 (drop (length (calls s)) (calls (snd (register_task lib p k w now s))))
           = [Dispatch ''Schedule.Service'', Connect]
       \<and> (wf_service s \<and> reachable s \<longrightarrow>
            fst (register_task lib p k w now s)
              = Inl (ValueError ''trigger must be one of: daily | once | logon'')
          \<and> folders (snd (register_task lib p k w now s))
              = folders s \<union> set (segment_folders [] (parts (folder p)))
          \<and> created (calls (snd (register_task lib p k w now s)))
              = created (calls s) @
                map (\<lambda>q. (butlast q, last q))
                  (filter (\<lambda>q. q \<notin> folders s) (segment_folders [] (parts (folder p))))
          \<and> last (calls (snd (register_task lib p k w now s))) = NewTask 0)"
proof -
  note a = attach_trigger_unsupported [OF assms, of lib "fill_task_def lib p blank_definition" w now]
  have "fst (register_task lib p k w now s)
              = Inl (ValueError ''trigger must be one of: daily | once | logon'')
          \<and> folders (snd (register_task lib p k w now s))
              = folders s \<union> set (segment_folders [] (parts (folder p)))
          \<and> created (calls (snd (register_task lib p k w now s)))
              = created (calls s) @
                map (\<lambda>q. (butlast q, last q))
                  (filter (\<lambda>q. q \<notin> folders s) (segment_folders [] (parts (folder p))))
          \<and> last (calls (snd (register_task lib p k w now s))) = NewTask 0"
    if wf: "wf_service s" and re: "reachable s"
  proof -
    define s1 where "s1 = journal Connect (journal (Dispatch ''Schedule.Service'') s)"
    have wf1: "wf_service s1" using wf by (simp add: s1_def wf_journal)
    have c1: "created (calls s1) = created (calls s)" "folders s1 = folders s"
      by (simp_all add: s1_def journal_simps created_def)
    obtain r s2 where g: "get_folder (folder p) s1 = (r, s2)" by (cases "get_folder (folder p) s1")
    from get_folder_spec [OF wf1, of "folder p"] g
    have "r = Inr (parts (folder p))"
      "folders s2 = folders s \<union> set (segment_folders [] (parts (folder p)))"
      "created (calls s2) = created (calls s) @
                map (\<lambda>q. (butlast q, last q))
                  (filter (\<lambda>q. q \<notin> folders s) (segment_folders [] (parts (folder p))))"
      by (simp_all add: c1)
    moreover have "register_task lib p k w now s
        = (Inl (ValueError ''trigger must be one of: daily | once | logon''), journal (NewTask 0) s2)"
      using re g a calculation(1) unfolding s1_def by (simp add: register_task_unfold)
    ultimately show ?thesis by (simp add: journal_simps created_def)
  qed
  then show ?thesis using register_task_failure [OF a, of s] by blast
qed

theorem register_task_unsupported_witness:
  "''weekly'' \<notin> {''daily'', ''once'', ''logon''}
   \<and> wf_service svc0 \<and> reachable svc0
   \<and> fst (register_task lib0 job0 ''weekly'' None clock0 svc0)
       = Inl (ValueError ''trigger must be one of: daily | once | logon'')
   \<and> tasks (snd (register_task lib0 job0 ''weekly'' None clock0 svc0)) = []
   \<and> submitted_keys (calls (snd (register_task lib0 job0 ''weekly'' None clock0 svc0))) = []
   \<and> last (calls (snd (register_task lib0 job0 ''weekly'' None clock0 svc0))) = NewTask 0"
proof -
  have k: "''weekly'' \<notin> {''daily'', ''once'', ''logon''}" by simp
  have wf: "wf_service svc0" "reachable svc0" by (simp_all add: wf_service_def svc0_def)
  have e: "tasks svc0 = []" "submitted_keys (calls svc0) = []"
    by (simp_all add: svc0_def submitted_keys_def)
  show ?thesis
    using register_task_unsupported [OF k, of lib0 job0 None clock0 svc0] wf e by simp
qed

subsection \<open>What a registration submits\<close>

lemma submitted_last:
  assumes "list_all is_folder_call cs"
  shows "submitted_definitions (xs @ [Dispatch d, Connect] @ cs @ [NewTask n, RegisterTaskDefinition f nm td fl u pw l])
           = submitted_definitions xs @ [td]"
    "submitted_credentials (xs @ [Dispatch d, Connect] @ cs @ [NewTask n, RegisterTaskDefinition f nm td fl u pw l])
           = submitted_credentials xs @ [(u, pw, l)]"
    "submitted_keys (xs @ [Dispatch d, Connect] @ cs @ [NewTask n, RegisterTaskDefinition f nm td fl u pw l])
           = submitted_keys xs @ [(f, nm, fl)]"
  using folder_calls_silent [OF assms]
  by (simp_all add: readers_append)
     (simp_all add: submitted_definitions_def submitted_credentials_def submitted_keys_def)

text \<open>
  With the interactive logon type and a user name and password in the parameters, the
  registration carries that user name and password.
\<close>

theorem register_task_credentials_counterexample:
  "logon_type job0 = TASK_LOGON_INTERACTIVE_TOKEN
   \<and> submitted_credentials
        (calls (snd (register_task lib0 (job0\<lparr>username := Some ''bob'', password := Some ''secret''\<rparr>)
                       ''logon'' None clock0 svc0)))
     = [(''bob'', ''secret'', 3)]"
  by code_simp

text \<open>
  Claim C4, as amended. A successful \<^verbatim>\<open>register_task\<close> submits one registration,
  with the user name and the password of the parameters, \<^verbatim>\<open>None\<close> replaced by the
  empty string, and the logon type of the parameters, whatever that type is. The
  submitted user name (password) is empty exactly when the field is \<^verbatim>\<open>None\<close> or empty.
\<close>

theorem register_task_credentials:
  assumes "fst (register_task lib p k w now s) = Inr ()"
  shows "submitted_credentials (calls (snd (register_task lib p k w now s)))
           = submitted_credentials (calls s) @
             [(str_or (username p) [], str_or (password p) [], logon_type p)]
       \<and> (str_or (username p) [] = [] \<longleftrightarrow> username p = None \<or> username p = Some [])
       \<and> (str_or (password p) [] = [] \<longleftrightarrow> password p = None \<or> password p = Some [])"
proof -
  from register_task_success [OF assms] obtain f cs td where
    "list_all is_folder_call cs"
    "calls (snd (register_task lib p k w now s)) =
        calls s @ [Dispatch ''Schedule.Service'', Connect] @ cs @
        [NewTask 0,
         RegisterTaskDefinition f (name p) td 6 (str_or (username p) []) (str_or (password p) [])
           (logon_type p)]" by blast
  then have "submitted_credentials (calls (snd (register_task lib p k w now s)))
           = submitted_credentials (calls s) @
             [(str_or (username p) [], str_or (password p) [], logon_type p)]"
    using submitted_last(2) by simp
  moreover have "str_or (username p) [] = [] \<longleftrightarrow> username p = None \<or> username p = Some []"
    "str_or (password p) [] = [] \<longleftrightarrow> password p = None \<or> password p = Some []"
    by (auto simp: str_or_def split: option.splits)
  ultimately show ?thesis by blast
qed

lemma job0_logon_ok: "fst (register_task lib0 job0 ''logon'' None clock0 svc0) = Inr ()"
  by code_simp

theorem register_task_credentials_witness:
  "fst (register_task lib0 job0 ''logon'' None clock0 svc0) = Inr ()
   \<and> submitted_credentials (calls (snd (register_task lib0 job0 ''logon'' None clock0 svc0)))
       = [([], [], 3)]"
proof -
  have e: "submitted_credentials (calls svc0) = []" "username job0 = None" "password job0 = None"
    "logon_type job0 = 3"
    by (simp_all add: svc0_def submitted_credentials_def job0_def TaskParams_init_def
        TASK_LOGON_INTERACTIVE_TOKEN_def)
  show ?thesis
    using register_task_credentials [OF job0_logon_ok] job0_logon_ok e
    by (simp add: str_or_def)
qed

subsection \<open>The executable path\<close>

text \<open>
  With an empty executable path the definition is built and the task registered; the
  action's path is what \<^verbatim>\<open>str\<close> gives for the path.
\<close>

theorem base_task_def_empty_exe_counterexample:
  "exe (job0\<lparr>exe := []\<rparr>) = []
   \<and> fst (base_task_def lib0 (job0\<lparr>exe := []\<rparr>) svc0)
       = Inr (fill_task_def lib0 (job0\<lparr>exe := []\<rparr>) blank_definition)
   \<and> fst (register_task lib0 (job0\<lparr>exe := []\<rparr>) ''logon'' None clock0 svc0) = Inr ()
   \<and> map Path (Actions (last (submitted_definitions
        (calls (snd (register_task lib0 (job0\<lparr>exe := []\<rparr>) ''logon'' None clock0 svc0))))))
       = [''.'']"
  by code_simp

text \<open>
  Claim C5, as amended. \<^verbatim>\<open>_base_task_def\<close> checks nothing: for every parameters, an
  empty executable path included, it returns a definition whose one action has the path
  \<^verbatim>\<open>str(params.exe)\<close>, and the outcome of \<^verbatim>\<open>register_task\<close> is the same for every
  executable path.
\<close>

theorem base_task_def_total:
  "fst (base_task_def lib p s) = Inr (fill_task_def lib p blank_definition)
   \<and> map Path (Actions (fill_task_def lib p blank_definition)) = [path_str lib (exe p)]
   \<and> fst (register_task lib (p\<lparr>exe := e\<rparr>) k w now s) = fst (register_task lib p k w now s)"
proof -
  have "fst (register_task lib (p\<lparr>exe := e\<rparr>) k w now s) = fst (register_task lib p k w now s)"
  proof (cases "reachable s")
    case False
    then show ?thesis by (simp add: register_task_unfold)
  next
    case True
    obtain r s2 where g: "get_folder (folder p) (journal Connect (journal (Dispatch ''Schedule.Service'') s)) = (r, s2)"
      by (cases "get_folder (folder p) (journal Connect (journal (Dispatch ''Schedule.Service'') s))")
    show ?thesis
    proof (cases r)
      case (Inl e')
      with True g show ?thesis by (simp add: register_task_unfold)
    next
      case (Inr f)
      show ?thesis
      proof (cases "attach_trigger lib (fill_task_def lib p blank_definition) k w now")
        case (Inl e')
        from attach_trigger_fails_alike(2) [OF Inl]
        have "attach_trigger lib (fill_task_def lib (p\<lparr>exe := e\<rparr>) blank_definition) k w now = Inl e'" .
        with True g Inr Inl show ?thesis by (simp add: register_task_unfold)
      next
        case (Inr td)
        have "\<not> isl (attach_trigger lib (fill_task_def lib (p\<lparr>exe := e\<rparr>) blank_definition) k w now)"
          using attach_trigger_fails_alike(1) [of lib "fill_task_def lib (p\<lparr>exe := e\<rparr>) blank_definition" k w now
              "fill_task_def lib p blank_definition"] Inr by simp
        then obtain td' where
          "attach_trigger lib (fill_task_def lib (p\<lparr>exe := e\<rparr>) blank_definition) k w now = Inr td'"
          by (cases "attach_trigger lib (fill_task_def lib (p\<lparr>exe := e\<rparr>) blank_definition) k w now") auto
        with True g \<open>r = Inr f\<close> Inr show ?thesis
          by (simp add: register_task_unfold register_definition_upsert)
      qed
    qed
  qed
  then show ?thesis using fill_task_def_lists(2) by (simp add: base_task_def_eq)
qed

theorem base_task_def_total_witness:
  "fst (base_task_def lib0 (job0\<lparr>exe := []\<rparr>) svc0)
     = Inr (fill_task_def lib0 (job0\<lparr>exe := []\<rparr>) blank_definition)
   \<and> map Path (Actions (fill_task_def lib0 (job0\<lparr>exe := []\<rparr>) blank_definition)) = [''.'']"
  using base_task_def_total [of lib0 "job0\<lparr>exe := []\<rparr>" svc0 "[]" "''logon''" None clock0]
  by (simp add: lib0_def)

lemma job0_daily_ok: "fst (register_task lib0 job0 ''daily'' None clock0 svc0) = Inr ()"
  by code_simp

subsection \<open>The default start boundary\<close>

lemma truncated_second:
  "(now::int) \<le> (now + 120000000) div 1000000 * 1000000"
  "(now + 120000000) div 1000000 * 1000000 \<le> (now::int) + 120000000"
proof -
  define x where "x = now + 120000000"
  have d: "x div 1000000 * 1000000 + x mod 1000000 = x" by (rule div_mult_mod_eq)
  have m: "0 \<le> x mod 1000000" "x mod 1000000 < 1000000" by simp_all
  from d m have "x - 1000000 < x div 1000000 * 1000000" "x div 1000000 * 1000000 \<le> x"
    by linarith+
  then show "now \<le> (now + 120000000) div 1000000 * 1000000"
    "(now + 120000000) div 1000000 * 1000000 \<le> now + 120000000"
    unfolding x_def by linarith+
qed

lemma stored_next_run:
  "map StartBoundary (Triggers td) = [b] \<Longrightarrow> NextRunTime (stored td u pw l) = b"
  by (cases "Triggers td") (auto simp: stored_def)

text \<open>
  Claim C8. When a registration with the kind \<^verbatim>\<open>daily\<close> or \<^verbatim>\<open>once\<close> and no
  \<open>when\<close> succeeds, the submitted definition has one trigger, whose start boundary is
  the clock reading of the call plus two minutes (120000000 microseconds), written in
  the format \<^verbatim>\<open>%Y-%m-%dT%H:%M:%S\<close>. On a reachable scheduler whose folders form a
  tree that text is the next run time of the stored task; and when the library reads the
  text back as the time to the whole second, the next run time is a time from the clock
  reading to two minutes after it.
\<close>

theorem register_task_default_boundary:
  assumes "k = ''daily'' \<or> k = ''once''"
    and "fst (register_task lib p k None now s) = Inr ()"
  shows "map StartBoundary
           (Triggers (last (submitted_definitions (calls (snd (register_task lib p k None now s))))))
           = [Some (strftime lib (now + 120000000) ''%Y-%m-%dT%H:%M:%S'')]
       \<and> now + 120000000 \<le> datetime_max
       \<and> (wf_service s \<and> reachable s \<longrightarrow>
            map_option NextRunTime
              (map_of (tasks (snd (register_task lib p k None now s))) (parts (folder p), name p))
              = Some (Some (strftime lib (now + 120000000) ''%Y-%m-%dT%H:%M:%S'')))
       \<and> (wf_service s \<and> reachable s
            \<and> strptime lib (strftime lib (now + 120000000) ''%Y-%m-%dT%H:%M:%S'')
                 ''%Y-%m-%dT%H:%M:%S''
               = Inr ((now + 120000000) div 1000000 * 1000000) \<longrightarrow>
            (\<exists>b t. map_option NextRunTime
                     (map_of (tasks (snd (register_task lib p k None now s)))
                        (parts (folder p), name p)) = Some (Some b)
                 \<and> strptime lib b ''%Y-%m-%dT%H:%M:%S'' = Inr t
                 \<and> now \<le> t \<and> t \<le> now + 120000000))"
proof -
  from register_task_success [OF assms(2)] obtain f cs td where
    td: "attach_trigger lib (fill_task_def lib p blank_definition) k None now = Inr td"
    and cs: "list_all is_folder_call cs"
    and c: "calls (snd (register_task lib p k None now s)) =
        calls s @ [Dispatch ''Schedule.Service'', Connect] @ cs @
        [NewTask 0,
         RegisterTaskDefinition f (name p) td 6 (str_or (username p) []) (str_or (password p) [])
           (logon_type p)]" by blast
  have l: "last (submitted_definitions (calls (snd (register_task lib p k None now s)))) = td"
    unfolding c using submitted_last(1) [OF cs] by simp
  from attach_trigger_default [OF assms(1) td]
  have b: "map StartBoundary (Triggers td)
      = [Some (strftime lib (now + 120000000) ''%Y-%m-%dT%H:%M:%S'')]"
    and m: "now + 120000000 \<le> datetime_max"
    by (simp_all add: fill_task_def_lists timedelta_minutes_def boundary_format_def)
  have n: "map_option NextRunTime
              (map_of (tasks (snd (register_task lib p k None now s))) (parts (folder p), name p))
              = Some (Some (strftime lib (now + 120000000) ''%Y-%m-%dT%H:%M:%S''))"
    if "wf_service s" "reachable s"
    using register_task_wf [OF that td] stored_next_run [OF b] by (simp add: update_conv')
  have e: "\<exists>b' t. map_option NextRunTime
                     (map_of (tasks (snd (register_task lib p k None now s)))
                        (parts (folder p), name p)) = Some (Some b')
                 \<and> strptime lib b' ''%Y-%m-%dT%H:%M:%S'' = Inr t
                 \<and> now \<le> t \<and> t \<le> now + 120000000"
    if "wf_service s" "reachable s"
      and "strptime lib (strftime lib (now + 120000000) ''%Y-%m-%dT%H:%M:%S'')
                 ''%Y-%m-%dT%H:%M:%S''
               = Inr ((now + 120000000) div 1000000 * 1000000)"
    using n [OF that(1,2)] that(3) truncated_second [of now] by blast
  show ?thesis
  proof (intro conjI impI)
    show "map StartBoundary
           (Triggers (last (submitted_definitions (calls (snd (register_task lib p k None now s))))))
           = [Some (strftime lib (now + 120000000) ''%Y-%m-%dT%H:%M:%S'')]"
      unfolding l by (rule b)
    show "now + 120000000 \<le> datetime_max" by (rule m)
  next
    assume "wf_service s \<and> reachable s"
    then show "map_option NextRunTime
              (map_of (tasks (snd (register_task lib p k None now s))) (parts (folder p), name p))
              = Some (Some (strftime lib (now + 120000000) ''%Y-%m-%dT%H:%M:%S''))"
      using n by blast
  next
    assume "wf_service s \<and> reachable s
            \<and> strptime lib (strftime lib (now + 120000000) ''%Y-%m-%dT%H:%M:%S'')
                 ''%Y-%m-%dT%H:%M:%S''
               = Inr ((now + 120000000) div 1000000 * 1000000)"
    then show "\<exists>b t. map_option NextRunTime
                     (map_of (tasks (snd (register_task lib p k None now s)))
                        (parts (folder p), name p)) = Some (Some b)
                 \<and> strptime lib b ''%Y-%m-%dT%H:%M:%S'' = Inr t
                 \<and> now \<le> t \<and> t \<le> now + 120000000"
      using e by blast
  qed
qed


lemma job0_half_ok:
  "fst (register_task lib0 job0 ''daily'' None (clock0 + 500000) svc0) = Inr ()"
  by code_simp

lemma lib0_half:
  "strftime lib0 (clock0 + 500000 + 120000000) ''%Y-%m-%dT%H:%M:%S'' = ''2025-08-18T09:02:00''"
  "strptime lib0 ''2025-08-18T09:02:00'' ''%Y-%m-%dT%H:%M:%S''
     = Inr ((clock0 + 500000 + 120000000) div 1000000 * 1000000)"
  "(clock0 + 500000 + 120000000) div 1000000 * 1000000 = clock0 + 120000000"
  "parts (folder job0) = [''Jobs'']" "name job0 = ''Job''"
  by code_simp+

theorem register_task_default_boundary_witness:
  "(''daily'' = ''daily'' \<or> ''daily'' = ''once'')
   \<and> fst (register_task lib0 job0 ''daily'' None (clock0 + 500000) svc0) = Inr ()
   \<and> wf_service svc0 \<and> reachable svc0
   \<and> strptime lib0 (strftime lib0 (clock0 + 500000 + 120000000) ''%Y-%m-%dT%H:%M:%S'')
        ''%Y-%m-%dT%H:%M:%S''
       = Inr ((clock0 + 500000 + 120000000) div 1000000 * 1000000)
   \<and> map StartBoundary
        (Triggers (last (submitted_definitions
           (calls (snd (register_task lib0 job0 ''daily'' None (clock0 + 500000) svc0))))))
       = [Some ''2025-08-18T09:02:00'']
   \<and> map_option NextRunTime
        (map_of (tasks (snd (register_task lib0 job0 ''daily'' None (clock0 + 500000) svc0)))
           ([''Jobs''], ''Job''))
       = Some (Some ''2025-08-18T09:02:00'')
   \<and> strptime lib0 ''2025-08-18T09:02:00'' ''%Y-%m-%dT%H:%M:%S'' = Inr (clock0 + 120000000)
   \<and> clock0 + 500000 \<le> clock0 + 120000000
   \<and> clock0 + 120000000 \<le> clock0 + 500000 + 120000000"
proof -
  have k: "''daily'' = ''daily'' \<or> ''daily'' = ''once''" by simp
  have wf: "wf_service svc0" "reachable svc0" by (simp_all add: wf_service_def svc0_def)
  show ?thesis
    using register_task_default_boundary [OF k job0_half_ok] job0_half_ok wf lib0_half
    by simp
qed

subsection \<open>Registering twice\<close>

lemma wf_register:
  assumes "wf_service s" "reachable s" "fst (register_task lib p k w now s) = Inr ()"
  shows "wf_service (snd (register_task lib p k w now s))"
proof -
  from register_task_success [OF assms(3)] obtain td where
    td: "attach_trigger lib (fill_task_def lib p blank_definition) k w now = Inr td" by blast
  from register_task_wf [OF assms(1,2) td]
  have "folders (snd (register_task lib p k w now s)) =
        folders s \<union> set (segment_folders [] (parts (folder p)))" by simp
  then show ?thesis using wf_extend [OF assms(1)] by blast
qed

text \<open>
  Claim C3. On a reachable scheduler whose folders form a tree, let a registration
  succeed, and let the same registration be made again (the clock may have moved on, as
  long as a registration at the new reading succeeds on the scheduler as it was). The
  second registration succeeds although the task exists, and leaves the tasks and the
  folders as the one registration at its clock reading alone would have. What is stored
  under the folder and the name is the submitted definition and nothing of an earlier
  one, and that definition has one trigger and one action.
\<close>

theorem register_task_upsert:
  assumes "wf_service s" "reachable s"
    and "fst (register_task lib p k w now1 s) = Inr ()"
    and "fst (register_task lib p k w now2 s) = Inr ()"
  shows "fst (register_task lib p k w now2 (snd (register_task lib p k w now1 s))) = Inr ()
       \<and> tasks (snd (register_task lib p k w now2 (snd (register_task lib p k w now1 s))))
           = tasks (snd (register_task lib p k w now2 s))
       \<and> folders (snd (register_task lib p k w now2 (snd (register_task lib p k w now1 s))))
           = folders (snd (register_task lib p k w now2 s))
       \<and> map_of (tasks (snd (register_task lib p k w now2 s))) (parts (folder p), name p)
           = Some (stored (last (submitted_definitions (calls (snd (register_task lib p k w now2 s)))))
                     (str_or (username p) []) (str_or (password p) []) (logon_type p))
       \<and> length (Triggers (last (submitted_definitions
                   (calls (snd (register_task lib p k w now2 s)))))) = 1
       \<and> length (Actions (last (submitted_definitions
                   (calls (snd (register_task lib p k w now2 s)))))) = 1"
proof -
  define s1 where "s1 = snd (register_task lib p k w now1 s)"
  from register_task_success [OF assms(3)] obtain td1 where
    td1: "attach_trigger lib (fill_task_def lib p blank_definition) k w now1 = Inr td1" by blast
  from register_task_success [OF assms(4)] obtain f cs td2 where
    td2: "attach_trigger lib (fill_task_def lib p blank_definition) k w now2 = Inr td2"
    and cs: "list_all is_folder_call cs"
    and c: "calls (snd (register_task lib p k w now2 s)) =
        calls s @ [Dispatch ''Schedule.Service'', Connect] @ cs @
        [NewTask 0,
         RegisterTaskDefinition f (name p) td2 6 (str_or (username p) []) (str_or (password p) [])
           (logon_type p)]" by blast
  have l: "last (submitted_definitions (calls (snd (register_task lib p k w now2 s)))) = td2"
    unfolding c using submitted_last(1) [OF cs] by simp
  note r1 = register_task_wf [OF assms(1,2) td1, folded s1_def]
  note r = register_task_wf [OF assms(1,2) td2]
  have wf1: "wf_service s1" unfolding s1_def using wf_register [OF assms(1,2,3)] .
  have re1: "reachable s1" using r1 by simp
  note r2 = register_task_wf [OF wf1 re1 td2]
  have shape: "length (Triggers td2) = 1" "length (Actions td2) = 1"
    using attach_trigger_shape [OF td2] by (simp_all add: fill_task_def_lists)
  have "tasks (snd (register_task lib p k w now2 s1)) = tasks (snd (register_task lib p k w now2 s))"
    using r r1 r2 by simp
  moreover have "folders (snd (register_task lib p k w now2 s1))
      = folders (snd (register_task lib p k w now2 s))"
    using r r1 r2 by auto
  moreover have "map_of (tasks (snd (register_task lib p k w now2 s))) (parts (folder p), name p)
      = Some (stored td2 (str_or (username p) []) (str_or (password p) []) (logon_type p))"
    using r by (simp add: update_conv')
  ultimately show ?thesis using r2 shape unfolding l s1_def by simp
qed

theorem register_task_upsert_witness:
  "wf_service svc0 \<and> reachable svc0
   \<and> fst (register_task lib0 job0 ''daily'' None clock0 svc0) = Inr ()
   \<and> fst (register_task lib0 job0 ''daily'' None clock0
            (snd (register_task lib0 job0 ''daily'' None clock0 svc0))) = Inr ()
   \<and> tasks (snd (register_task lib0 job0 ''daily'' None clock0
                   (snd (register_task lib0 job0 ''daily'' None clock0 svc0))))
       = tasks (snd (register_task lib0 job0 ''daily'' None clock0 svc0))
   \<and> length (tasks (snd (register_task lib0 job0 ''daily'' None clock0 svc0))) = 1"
proof -
  have wf: "wf_service svc0" "reachable svc0" by (simp_all add: wf_service_def svc0_def)
  have n: "length (tasks (snd (register_task lib0 job0 ''daily'' None clock0 svc0))) = 1"
    by code_simp
  show ?thesis
    using register_task_upsert [OF wf job0_daily_ok job0_daily_ok] wf job0_daily_ok n by simp
qed

subsection \<open>Running and listing\<close>

lemma resolve_wf:
  assumes "wf_service s" "reachable s"
  shows "\<exists>s2 cs. connect s = (Inr (), journal Connect (journal (Dispatch ''Schedule.Service'') s))
     \<and> get_folder fld (journal Connect (journal (Dispatch ''Schedule.Service'') s))
         = (Inr (parts fld), s2)
     \<and> tasks s2 = tasks s \<and> reachable s2
     \<and> folders s2 = folders s \<union> set (segment_folders [] (parts fld))
     \<and> calls s2 = calls s @ [Dispatch ''Schedule.Service'', Connect] @ cs
     \<and> list_all is_folder_call cs"
proof -
  define s1 where "s1 = journal Connect (journal (Dispatch ''Schedule.Service'') s)"
  have wf1: "wf_service s1" using assms(1) by (simp add: s1_def wf_journal)
  obtain r s2 where g: "get_folder fld s1 = (r, s2)" by (cases "get_folder fld s1")
  from get_folder_spec [OF wf1, of fld] g
  have r: "r = Inr (parts fld)"
    and s2: "folders s2 = folders s \<union> set (segment_folders [] (parts fld))"
    "tasks s2 = tasks s" "reachable s2 = reachable s"
    by (simp_all add: s1_def journal_simps)
  from get_folder_frame [of fld s1] g obtain cs where
    cs: "calls s2 = calls s1 @ cs" "list_all is_folder_call cs" by auto
  have "connect s = (Inr (), s1)"
    using assms(2) by (simp add: connect_def service_Connect_def Let_def s1_def journal_simps)
  then show ?thesis using g r s2 cs assms(2) unfolding s1_def by (auto simp: journal_simps)
qed

text \<open>
  Claim C9. On a reachable scheduler whose folders form a tree, running a name that is
  not registered in the folder fails with the scheduler's not-found error, raised by the
  lookup of the task; no run is requested and the tasks are as before.
\<close>

theorem run_task_absent:
  assumes "wf_service s" "reachable s"
    and "map_of (tasks s) (parts fld, nm) = None"
  shows "fst (run_task nm fld s) = Inl (com_error ERROR_FILE_NOT_FOUND)
       \<and> run_requests (calls (snd (run_task nm fld s))) = run_requests (calls s)
       \<and> tasks (snd (run_task nm fld s)) = tasks s"
proof -
  from resolve_wf [OF assms(1,2), of fld] obtain s2 cs where
    c: "connect s = (Inr (), journal Connect (journal (Dispatch ''Schedule.Service'') s))"
    and g: "get_folder fld (journal Connect (journal (Dispatch ''Schedule.Service'') s))
         = (Inr (parts fld), s2)"
    and s2: "tasks s2 = tasks s"
      "calls s2 = calls s @ [Dispatch ''Schedule.Service'', Connect] @ cs"
      "list_all is_folder_call cs" by blast
  have "run_task nm fld s = (Inl (com_error ERROR_FILE_NOT_FOUND), journal (GetTask (parts fld) nm) s2)"
    using c g s2(1) assms(3)
    by (simp add: run_task_def folder_GetTask_def Let_def journal_simps)
  then show ?thesis using s2 folder_calls_silent(4) [OF s2(3)]
    by (simp add: journal_simps readers_append run_requests_def)
qed

theorem run_task_absent_witness:
  "wf_service svc0 \<and> reachable svc0
   \<and> map_of (tasks svc0) (parts ([bs] @ ''Jobs''), ''Ghost'') = None
   \<and> fst (run_task ''Ghost'' ([bs] @ ''Jobs'') svc0) = Inl (com_error ERROR_FILE_NOT_FOUND)
   \<and> run_requests (calls (snd (run_task ''Ghost'' ([bs] @ ''Jobs'') svc0))) = []"
proof -
  have wf: "wf_service svc0" "reachable svc0" by (simp_all add: wf_service_def svc0_def)
  have a: "map_of (tasks svc0) (parts ([bs] @ ''Jobs''), ''Ghost'') = None" by (simp add: svc0_def)
  have e: "run_requests (calls svc0) = []" by (simp add: svc0_def run_requests_def)
  show ?thesis using run_task_absent [OF wf a] wf a e by simp
qed

text \<open>
  Claim C6. On a reachable scheduler whose folders form a tree, \<^verbatim>\<open>list_tasks\<close>
  writes one record (name, state, next run time, path) for each task that the scheduler
  holds in the folder at the time of the call and enumerates (hidden tasks are not
  enumerated with the flag 0), in the scheduler's order. Every call asks the scheduler
  once; the tasks are left as they are, and listing again gives the same records.
\<close>

theorem list_tasks_fresh:
  assumes "wf_service s" "reachable s"
  shows "fst (list_tasks fld s)
           = Inr (map as_registered_task
                    (filter (\<lambda>e. fst (fst e) = parts fld \<and> \<not> Hidden (Settings (Definition (snd e))))
                       (tasks s)))
       \<and> enumerations (calls (snd (list_tasks fld s))) = enumerations (calls s) @ [(parts fld, 0)]
       \<and> tasks (snd (list_tasks fld s)) = tasks s
       \<and> fst (list_tasks fld (snd (list_tasks fld s))) = fst (list_tasks fld s)"
proof -
  have one: "fst (list_tasks fld t)
           = Inr (map as_registered_task
                    (filter (\<lambda>e. fst (fst e) = parts fld \<and> \<not> Hidden (Settings (Definition (snd e))))
                       (tasks t)))
       \<and> enumerations (calls (snd (list_tasks fld t))) = enumerations (calls t) @ [(parts fld, 0)]
       \<and> tasks (snd (list_tasks fld t)) = tasks t
       \<and> reachable (snd (list_tasks fld t))
       \<and> folders (snd (list_tasks fld t)) = folders t \<union> set (segment_folders [] (parts fld))"
    if "wf_service t" "reachable t" for t
  proof -
    from resolve_wf [OF that, of fld] obtain s2 cs where
      c: "connect t = (Inr (), journal Connect (journal (Dispatch ''Schedule.Service'') t))"
      and g: "get_folder fld (journal Connect (journal (Dispatch ''Schedule.Service'') t))
           = (Inr (parts fld), s2)"
      and s2: "tasks s2 = tasks t" "reachable s2"
        "folders s2 = folders t \<union> set (segment_folders [] (parts fld))"
        "calls s2 = calls t @ [Dispatch ''Schedule.Service'', Connect] @ cs"
        "list_all is_folder_call cs" by blast
    have "list_tasks fld t =
        (Inr (map as_registered_task
                (filter (\<lambda>e. fst (fst e) = parts fld \<and> \<not> Hidden (Settings (Definition (snd e))))
                   (tasks t))),
         journal (GetTasks (parts fld) 0) s2)"
      using c g s2(1) by (simp add: list_tasks_def folder_GetTasks_def Let_def journal_simps)
    then show ?thesis using s2 folder_calls_silent(5) [OF s2(5)]
      by (simp add: journal_simps readers_append enumerations_def)
  qed
  note first = one [OF assms]
  have "wf_service (snd (list_tasks fld s))" using wf_extend [OF assms(1)] first by blast
  from one [OF this] first have "fst (list_tasks fld (snd (list_tasks fld s))) = fst (list_tasks fld s)"
    by simp
  then show ?thesis using first by simp
qed

subsection \<open>The command line\<close>

lemma parse_args_register:
  assumes "subcommand av = ''register''" "\<not> isl (parse_args av)"
  shows "\<exists>ns. parse_args av = Inr ns \<and> ns_cmd ns = ''register''
     \<and> ns_at ns = map_of (given av) ''at''
     \<and> ns_folder ns = opt_default av ''folder'' [bs]
     \<and> ns_name ns = opt_default av ''name'' []"
  using assms by (auto simp: parse_args_def Let_def split: if_splits)

lemma map_of_without:
  "map_of (filter (\<lambda>kv. fst kv \<noteq> k) xs) k' = (if k' = k then None else map_of xs k')"
  by (induction xs) auto

lemma parse_args_without_at:
  "parse_args (av\<lparr>given := filter (\<lambda>kv. fst kv \<noteq> ''at'') (given av)\<rparr>)
     = (case parse_args av of Inl e \<Rightarrow> Inl e | Inr ns \<Rightarrow> Inr (ns\<lparr>ns_at := None\<rparr>))"
  by (simp add: parse_args_def opt_default_def map_of_without Let_def)

lemma main_without_empty_at:
  assumes "map_of (given av) ''at'' = Some []"
  shows "main lib av now s
           = main lib (av\<lparr>given := filter (\<lambda>kv. fst kv \<noteq> ''at'') (given av)\<rparr>) now s"
proof (cases "parse_args av")
  case (Inl e)
  then show ?thesis by (simp add: main_def parse_args_without_at)
next
  case (Inr ns)
  then have "ns_at ns = Some []" using assms by (auto simp: parse_args_def Let_def split: if_splits)
  then show ?thesis using Inr
    by (simp add: main_def parse_args_without_at parse_at_def Let_def split: option.splits)
qed

lemma main_register_called:
  assumes "subcommand av = ''register''" "fst (main lib av now s) = Inr 0"
  shows "\<exists>p dt. parse_at lib (map_of (given av) ''at'') = Inr dt
     \<and> fst (register_task lib p (opt_default av ''trigger'' []) dt now s) = Inr ()
     \<and> snd (main lib av now s) = snd (register_task lib p (opt_default av ''trigger'' []) dt now s)"
proof -
  from assms(2) obtain ns where ns: "parse_args av = Inr ns"
    by (cases "parse_args av") (auto simp: main_def)
  then have f: "ns_cmd ns = ''register''" "ns_at ns = map_of (given av) ''at''"
    "ns_trigger ns = opt_default av ''trigger'' []"
    using assms(1) by (auto simp: parse_args_def Let_def split: if_splits)
  from assms(2) ns f obtain dt where dt: "parse_at lib (ns_at ns) = Inr dt"
    by (cases "parse_at lib (ns_at ns)") (auto simp: main_def)
  from assms(2) ns f dt obtain lt where lt: "logon_map (ns_logon ns) = Some lt"
    by (cases "logon_map (ns_logon ns)") (auto simp: main_def)
  define p where "p = \<lparr>name = ns_name ns, exe = ns_exe ns, arguments = ns_args ns,
      start_when_available = True, run_with_highest = ns_highest ns, wake_to_run = ns_wake ns,
      working_dir = (case ns_workdir ns of None \<Rightarrow> None | Some w \<Rightarrow> if w = [] then None else Some w),
      folder = ns_folder ns, logon_type = lt, username = ns_username ns,
      password = ns_password ns\<rparr>"
  have m: "main lib av now s =
      (case register_task lib p (ns_trigger ns) dt now s of
         (Inl e, s1) \<Rightarrow> (Inl e, s1) | (Inr u, s1) \<Rightarrow> (Inr 0, s1))"
    using ns f dt lt by (simp add: main_def p_def Let_def)
  obtain r s1 where r: "register_task lib p (ns_trigger ns) dt now s = (r, s1)"
    by (cases "register_task lib p (ns_trigger ns) dt now s")
  with m assms(2) have "r = Inr ()" by (cases r) auto
  with m r have "fst (register_task lib p (ns_trigger ns) dt now s) = Inr ()"
    "snd (main lib av now s) = snd (register_task lib p (ns_trigger ns) dt now s)" by simp_all
  then show ?thesis using dt f by auto
qed

lemma main_default_boundary:
  assumes "subcommand av = ''register''" "map_of (given av) ''at'' = Some []"
    and "opt_default av ''trigger'' [] = ''daily'' \<or> opt_default av ''trigger'' [] = ''once''"
    and "fst (main lib av now s) = Inr 0"
  shows "map StartBoundary
           (Triggers (last (submitted_definitions (calls (snd (main lib av now s))))))
           = [Some (strftime lib (now + 120000000) ''%Y-%m-%dT%H:%M:%S'')]"
proof -
  from main_register_called [OF assms(1,4)] obtain p dt where
    dt: "parse_at lib (map_of (given av) ''at'') = Inr dt"
    and ok: "fst (register_task lib p (opt_default av ''trigger'' []) dt now s) = Inr ()"
    and sn: "snd (main lib av now s) = snd (register_task lib p (opt_default av ''trigger'' []) dt now s)"
    by blast
  from dt assms(2) have none: "dt = None" by (simp add: parse_at_def)
  from register_task_success [OF ok] obtain f cs td where
    td: "attach_trigger lib (fill_task_def lib p blank_definition) (opt_default av ''trigger'' []) dt now = Inr td"
    and cs: "list_all is_folder_call cs"
    and c: "calls (snd (register_task lib p (opt_default av ''trigger'' []) dt now s)) =
        calls s @ [Dispatch ''Schedule.Service'', Connect] @ cs @
        [NewTask 0,
         RegisterTaskDefinition f (name p) td 6 (str_or (username p) []) (str_or (password p) [])
           (logon_type p)]" by blast
  have l: "last (submitted_definitions (calls (snd (main lib av now s)))) = td"
    unfolding sn c using submitted_last(1) [OF cs] by simp
  from attach_trigger_default [OF assms(3) td [unfolded none]]
  show ?thesis unfolding l
    by (simp add: fill_task_def_lists timedelta_minutes_def boundary_format_def)
qed

text \<open>
  An empty \<^verbatim>\<open>--at\<close> is no timestamp, and the command does not fail on it: the value
  is taken as absent and the task is registered for two minutes after the clock reading.
  Nor does the command fail on \<^verbatim>\<open>2025-1-2T3:4:5\<close>, which is not of the form
  \<^verbatim>\<open>YYYY-mm-ddTHH:MM:SS\<close>: \<^verbatim>\<open>strptime\<close> reads fields of one digit.
\<close>

theorem main_register_empty_at_counterexample:
  "isl (strptime lib0 [] ''%Y-%m-%dT%H:%M:%S'')
   \<and> fst (main lib0 (argv0\<lparr>given := given argv0 @ [(''at'', [])]\<rparr>) clock0 svc0) = Inr 0
   \<and> submitted_keys (calls (snd (main lib0 (argv0\<lparr>given := given argv0 @ [(''at'', [])]\<rparr>) clock0 svc0)))
       = [([], ''Job'', 6)]
   \<and> map StartBoundary (Triggers (last (submitted_definitions
        (calls (snd (main lib0 (argv0\<lparr>given := given argv0 @ [(''at'', [])]\<rparr>) clock0 svc0))))))
       = [Some ''2025-08-18T09:02:00'']
   \<and> length ''2025-1-2T3:4:5'' \<noteq> length ''YYYY-mm-ddTHH:MM:SS''
   \<and> fst (main lib0 (argv0\<lparr>given := given argv0 @ [(''at'', ''2025-1-2T3:4:5'')]\<rparr>) clock0 svc0)
       = Inr 0
   \<and> map StartBoundary (Triggers (last (submitted_definitions
        (calls (snd (main lib0 (argv0\<lparr>given := given argv0 @ [(''at'', ''2025-1-2T3:4:5'')]\<rparr>)
                       clock0 svc0))))))
       = [Some ''2025-01-02T03:04:05'']"
  by code_simp

text \<open>
  Claim C7, as amended. When the \<^verbatim>\<open>register\<close> command is given a non-empty
  \<^verbatim>\<open>--at\<close> that \<^verbatim>\<open>strptime\<close> rejects for the format \<^verbatim>\<open>%Y-%m-%dT%H:%M:%S\<close>,
  the command fails with that \<^verbatim>\<open>ValueError\<close> and the scheduler is untouched: nothing
  was asked of it. When it is given an empty \<^verbatim>\<open>--at\<close>, it does what it does without
  the option, and a successful registration of the kind \<^verbatim>\<open>daily\<close> or \<^verbatim>\<open>once\<close>
  has the start boundary of two minutes after the clock reading.
\<close>

theorem main_register_malformed_at:
  assumes "subcommand av = ''register''" "\<not> isl (parse_args av)"
  shows "(map_of (given av) ''at'' = Some a \<and> a \<noteq> []
            \<and> strptime lib a ''%Y-%m-%dT%H:%M:%S'' = Inl msg
          \<longrightarrow> main lib av now s = (Inl (ValueError msg), s))
       \<and> (map_of (given av) ''at'' = Some [] \<longrightarrow>
            main lib av now s
              = main lib (av\<lparr>given := filter (\<lambda>kv. fst kv \<noteq> ''at'') (given av)\<rparr>) now s
          \<and> ((opt_default av ''trigger'' [] = ''daily'' \<or> opt_default av ''trigger'' [] = ''once'')
                \<and> fst (main lib av now s) = Inr 0
              \<longrightarrow> map StartBoundary
                    (Triggers (last (submitted_definitions (calls (snd (main lib av now s))))))
                    = [Some (strftime lib (now + 120000000) ''%Y-%m-%dT%H:%M:%S'')]))"
proof -
  from parse_args_register [OF assms] obtain ns where
    ns: "parse_args av = Inr ns" "ns_cmd ns = ''register''" "ns_at ns = map_of (given av) ''at''"
    by blast
  have one: "main lib av now s = (Inl (ValueError msg), s)"
    if "map_of (given av) ''at'' = Some a" "a \<noteq> []"
      "strptime lib a ''%Y-%m-%dT%H:%M:%S'' = Inl msg"
    using ns that by (simp add: main_def parse_at_def boundary_format_def)
  show ?thesis
    using one main_without_empty_at [of av lib now s] main_default_boundary [OF assms(1), of lib now s]
    by blast
qed

theorem main_register_malformed_at_witness:
  "subcommand (argv0\<lparr>given := given argv0 @ [(''at'', ''tomorrow'')]\<rparr>) = ''register''
   \<and> \<not> isl (parse_args (argv0\<lparr>given := given argv0 @ [(''at'', ''tomorrow'')]\<rparr>))
   \<and> map_of (given (argv0\<lparr>given := given argv0 @ [(''at'', ''tomorrow'')]\<rparr>)) ''at'' = Some ''tomorrow''
   \<and> strptime lib0 ''tomorrow'' ''%Y-%m-%dT%H:%M:%S''
       = Inl (''time data '' @ quoted ''tomorrow'' @ '' does not match format ''
              @ quoted ''%Y-%m-%dT%H:%M:%S'')
   \<and> main lib0 (argv0\<lparr>given := given argv0 @ [(''at'', ''tomorrow'')]\<rparr>) clock0 svc0
       = (Inl (ValueError (''time data '' @ quoted ''tomorrow'' @ '' does not match format ''
                             @ quoted ''%Y-%m-%dT%H:%M:%S'')), svc0)
   \<and> subcommand (argv0\<lparr>given := given argv0 @ [(''at'', [])]\<rparr>) = ''register''
   \<and> \<not> isl (parse_args (argv0\<lparr>given := given argv0 @ [(''at'', [])]\<rparr>))
   \<and> map_of (given (argv0\<lparr>given := given argv0 @ [(''at'', [])]\<rparr>)) ''at'' = Some []
   \<and> opt_default (argv0\<lparr>given := given argv0 @ [(''at'', [])]\<rparr>) ''trigger'' [] = ''daily''
   \<and> fst (main lib0 (argv0\<lparr>given := given argv0 @ [(''at'', [])]\<rparr>) clock0 svc0) = Inr 0
   \<and> main lib0 (argv0\<lparr>given := given argv0 @ [(''at'', [])]\<rparr>) clock0 svc0
       = main lib0 (argv0\<lparr>given := given argv0 @ [(''at'', [])]\<rparr>
                      \<lparr>given := filter (\<lambda>kv. fst kv \<noteq> ''at'')
                                   (given (argv0\<lparr>given := given argv0 @ [(''at'', [])]\<rparr>))\<rparr>)
           clock0 svc0
   \<and> map StartBoundary (Triggers (last (submitted_definitions
        (calls (snd (main lib0 (argv0\<lparr>given := given argv0 @ [(''at'', [])]\<rparr>) clock0 svc0))))))
       = [Some (strftime lib0 (clock0 + 120000000) ''%Y-%m-%dT%H:%M:%S'')]"
proof -
  have a: "subcommand (argv0\<lparr>given := given argv0 @ [(''at'', ''tomorrow'')]\<rparr>) = ''register''"
    "subcommand (argv0\<lparr>given := given argv0 @ [(''at'', [])]\<rparr>) = ''register''"
    by (simp_all add: argv0_def)
  have b: "\<not> isl (parse_args (argv0\<lparr>given := given argv0 @ [(''at'', ''tomorrow'')]\<rparr>))"
    "\<not> isl (parse_args (argv0\<lparr>given := given argv0 @ [(''at'', [])]\<rparr>))"
    by code_simp+
  have c: "map_of (given (argv0\<lparr>given := given argv0 @ [(''at'', ''tomorrow'')]\<rparr>)) ''at'' = Some ''tomorrow''"
    "map_of (given (argv0\<lparr>given := given argv0 @ [(''at'', [])]\<rparr>)) ''at'' = Some []"
    "opt_default (argv0\<lparr>given := given argv0 @ [(''at'', [])]\<rparr>) ''trigger'' [] = ''daily''"
    by (simp_all add: argv0_def opt_default_def)
  have d: "''tomorrow'' \<noteq> []" by simp
  have e: "strptime lib0 ''tomorrow'' ''%Y-%m-%dT%H:%M:%S''
       = Inl (''time data '' @ quoted ''tomorrow'' @ '' does not match format ''
              @ quoted ''%Y-%m-%dT%H:%M:%S'')"
    by code_simp
  have f: "fst (main lib0 (argv0\<lparr>given := given argv0 @ [(''at'', [])]\<rparr>) clock0 svc0) = Inr 0"
    by code_simp
  note t1 = main_register_malformed_at [OF a(1) b(1), of "''tomorrow''" lib0
      "''time data '' @ quoted ''tomorrow'' @ '' does not match format '' @ quoted ''%Y-%m-%dT%H:%M:%S''"
      clock0 svc0]
  note t2 = main_register_malformed_at [OF a(2) b(2), of "[]" lib0 "[]" clock0 svc0]
  show ?thesis using t1 t2 a b c d e f by blast
qed

lemma main_register_success:
  assumes "subcommand av = ''register''" "fst (main lib av now s) = Inr 0"
  shows "\<exists>p k dt. folder p = opt_default av ''folder'' [bs] \<and> name p = opt_default av ''name'' []
     \<and> fst (register_task lib p k dt now s) = Inr ()
     \<and> snd (main lib av now s) = snd (register_task lib p k dt now s)"
proof -
  have ok: "\<not> isl (parse_args av)"
    using assms(2) by (cases "parse_args av") (auto simp: main_def)
  from parse_args_register [OF assms(1) ok] obtain ns where
    ns: "parse_args av = Inr ns" "ns_cmd ns = ''register''"
    "ns_folder ns = opt_default av ''folder'' [bs]" "ns_name ns = opt_default av ''name'' []"
    by blast
  from assms(2) ns obtain dt where dt: "parse_at lib (ns_at ns) = Inr dt"
    by (cases "parse_at lib (ns_at ns)") (auto simp: main_def)
  from assms(2) ns dt obtain lt where lt: "logon_map (ns_logon ns) = Some lt"
    by (cases "logon_map (ns_logon ns)") (auto simp: main_def)
  define p where "p = \<lparr>name = ns_name ns, exe = ns_exe ns, arguments = ns_args ns,
      start_when_available = True, run_with_highest = ns_highest ns, wake_to_run = ns_wake ns,
      working_dir = (case ns_workdir ns of None \<Rightarrow> None | Some w \<Rightarrow> if w = [] then None else Some w),
      folder = ns_folder ns, logon_type = lt, username = ns_username ns,
      password = ns_password ns\<rparr>"
  have m: "main lib av now s =
      (case register_task lib p (ns_trigger ns) dt now s of
         (Inl e, s1) \<Rightarrow> (Inl e, s1) | (Inr u, s1) \<Rightarrow> (Inr 0, s1))"
    using ns dt lt by (simp add: main_def p_def Let_def)
  obtain r s1 where r: "register_task lib p (ns_trigger ns) dt now s = (r, s1)"
    by (cases "register_task lib p (ns_trigger ns) dt now s")
  with m assms(2) have "r = Inr ()" by (cases r) auto
  with m r have "fst (register_task lib p (ns_trigger ns) dt now s) = Inr ()"
    "snd (main lib av now s) = snd (register_task lib p (ns_trigger ns) dt now s)" by simp_all
  moreover have "folder p = opt_default av ''folder'' [bs]" "name p = opt_default av ''name'' []"
    using ns by (simp_all add: p_def)
  ultimately show ?thesis by blast
qed

subsection \<open>The default folder\<close>

lemma parts_root: "parts [bs] = []"
  by (simp add: parts_def str_strip_def)

lemma parts_default_folder:
  "parts default_folder = [''D:'', ''LifeLongLearning'', ''windows-automation-python'']"
  by code_simp

lemma register_task_key:
  assumes "wf_service s" "reachable s" "fst (register_task lib p k w now s) = Inr ()"
  shows "submitted_keys (calls (snd (register_task lib p k w now s)))
           = submitted_keys (calls s) @ [(parts (folder p), name p, 6)]"
proof -
  from register_task_success [OF assms(3)] obtain td where
    "attach_trigger lib (fill_task_def lib p blank_definition) k w now = Inr td" by blast
  from register_task_wf [OF assms(1,2) this] show ?thesis by simp
qed

text \<open>
  Claim C10. The \<open>folder\<close> field of \<^verbatim>\<open>TaskParams\<close> defaults to the path
  \<^verbatim>\<open>D:\LifeLongLearning\windows-automation-python\<close>, whose segments are not the
  root: a successful \<^verbatim>\<open>register_task\<close> with that field submits its registration to
  the folder of these three segments, while a successful \<^verbatim>\<open>register\<close> command
  without \<^verbatim>\<open>--folder\<close> submits it to the root.
\<close>

theorem default_folder_not_root:
  "folder (TaskParams_init n e) = default_folder
   \<and> parts default_folder = [''D:'', ''LifeLongLearning'', ''windows-automation-python'']
   \<and> (wf_service s \<and> reachable s \<and> folder p = default_folder
        \<and> fst (register_task lib p k w now s) = Inr ()
      \<longrightarrow> submitted_keys (calls (snd (register_task lib p k w now s)))
            = submitted_keys (calls s) @
              [([''D:'', ''LifeLongLearning'', ''windows-automation-python''], name p, 6)])
   \<and> (wf_service s \<and> reachable s \<and> subcommand av = ''register''
        \<and> map_of (given av) ''folder'' = None \<and> fst (main lib av now s) = Inr 0
      \<longrightarrow> submitted_keys (calls (snd (main lib av now s)))
            = submitted_keys (calls s) @ [([], opt_default av ''name'' [], 6)])"
proof -
  have a: "submitted_keys (calls (snd (register_task lib p k w now s)))
            = submitted_keys (calls s) @
              [([''D:'', ''LifeLongLearning'', ''windows-automation-python''], name p, 6)]"
    if "wf_service s" "reachable s" "folder p = default_folder"
      "fst (register_task lib p k w now s) = Inr ()"
    using register_task_key [OF that(1,2,4)] that(3) by (simp add: parts_default_folder)
  have b: "submitted_keys (calls (snd (main lib av now s)))
            = submitted_keys (calls s) @ [([], opt_default av ''name'' [], 6)]"
    if "wf_service s" "reachable s" "subcommand av = ''register''"
      "map_of (given av) ''folder'' = None" "fst (main lib av now s) = Inr 0"
  proof -
    from main_register_success [OF that(3,5)] obtain q k' dt where
      q: "folder q = opt_default av ''folder'' [bs]" "name q = opt_default av ''name'' []"
      "fst (register_task lib q k' dt now s) = Inr ()"
      "snd (main lib av now s) = snd (register_task lib q k' dt now s)" by blast
    have "folder q = [bs]" using q(1) that(4) by (simp add: opt_default_def)
    then show ?thesis using register_task_key [OF that(1,2) q(3)] q(2,4) by (simp add: parts_root)
  qed
  show ?thesis using a b parts_default_folder by (simp add: TaskParams_init_def)
qed

lemma init_daily_ok:
  "fst (register_task lib0 (TaskParams_init ''Job'' ''x.exe'') ''daily'' None clock0 svc0) = Inr ()"
  by code_simp

lemma argv0_ok: "fst (main lib0 argv0 clock0 svc0) = Inr 0"
  by code_simp

theorem default_folder_not_root_witness:
  "wf_service svc0 \<and> reachable svc0
   \<and> folder (TaskParams_init ''Job'' ''x.exe'') = default_folder
   \<and> fst (register_task lib0 (TaskParams_init ''Job'' ''x.exe'') ''daily'' None clock0 svc0) = Inr ()
   \<and> submitted_keys (calls (snd (register_task lib0 (TaskParams_init ''Job'' ''x.exe'') ''daily''
                                     None clock0 svc0)))
       = [([''D:'', ''LifeLongLearning'', ''windows-automation-python''], ''Job'', 6)]
   \<and> subcommand argv0 = ''register'' \<and> map_of (given argv0) ''folder'' = None
   \<and> fst (main lib0 argv0 clock0 svc0) = Inr 0
   \<and> submitted_keys (calls (snd (main lib0 argv0 clock0 svc0))) = [([], ''Job'', 6)]"
proof -
  have wf: "wf_service svc0" "reachable svc0" by (simp_all add: wf_service_def svc0_def)
  have f: "folder (TaskParams_init ''Job'' ''x.exe'') = default_folder"
    "name (TaskParams_init ''Job'' ''x.exe'') = ''Job''"
    by (simp_all add: TaskParams_init_def)
  have av: "subcommand argv0 = ''register''" "map_of (given argv0) ''folder'' = None"
    "opt_default argv0 ''name'' [] = ''Job''"
    by (simp_all add: argv0_def opt_default_def)
  have e: "submitted_keys (calls svc0) = []" by (simp add: svc0_def submitted_keys_def)
  show ?thesis
    using default_folder_not_root [of "''Job''" "''x.exe''" svc0 "TaskParams_init ''Job'' ''x.exe''"
        lib0 "''daily''" None clock0 argv0]
      wf f av e init_daily_ok argv0_ok by simp
qed

subsection \<open>Listing a registered job\<close>

lemma job0_registered_wf:
  "wf_service (snd (register_task lib0 job0 ''daily'' None clock0 svc0))"
  "reachable (snd (register_task lib0 job0 ''daily'' None clock0 svc0))"
proof -
  have wf: "wf_service svc0" "reachable svc0" by (simp_all add: wf_service_def svc0_def)
  show "wf_service (snd (register_task lib0 job0 ''daily'' None clock0 svc0))"
    using wf_register [OF wf job0_daily_ok] .
  show "reachable (snd (register_task lib0 job0 ''daily'' None clock0 svc0))"
    by code_simp
qed

lemma job0_listed:
  "fst (list_tasks ([bs] @ ''Jobs'') (snd (register_task lib0 job0 ''daily'' None clock0 svc0)))
     = Inr [\<lparr>rt_Name = ''Job'', rt_State = 3, rt_NextRunTime = Some ''2025-08-18T09:02:00'',
             rt_Path = [bs] @ ''Jobs'' @ [bs] @ ''Job''\<rparr>]"
  by code_simp

theorem list_tasks_fresh_witness:
  "wf_service (snd (register_task lib0 job0 ''daily'' None clock0 svc0))
   \<and> reachable (snd (register_task lib0 job0 ''daily'' None clock0 svc0))
   \<and> fst (list_tasks ([bs] @ ''Jobs'') (snd (register_task lib0 job0 ''daily'' None clock0 svc0)))
       = Inr [\<lparr>rt_Name = ''Job'', rt_State = 3, rt_NextRunTime = Some ''2025-08-18T09:02:00'',
               rt_Path = [bs] @ ''Jobs'' @ [bs] @ ''Job''\<rparr>]
   \<and> fst (list_tasks ([bs] @ ''Jobs'')
            (snd (list_tasks ([bs] @ ''Jobs'')
                    (snd (register_task lib0 job0 ''daily'' None clock0 svc0)))))
       = Inr [\<lparr>rt_Name = ''Job'', rt_State = 3, rt_NextRunTime = Some ''2025-08-18T09:02:00'',
               rt_Path = [bs] @ ''Jobs'' @ [bs] @ ''Job''\<rparr>]"
  using list_tasks_fresh [OF job0_registered_wf, of "[bs] @ ''Jobs''"] job0_registered_wf job0_listed
  by simp

end
